theory Spec2Isabelle
  imports Main "HOL-Library.Word"
begin

unbundle bit_operations_syntax

section \<open>Common data\<close>

type_synonym u8 = "8 word"
type_synonym u32 = "32 word"

text \<open>
  Memory reachable from a C pointer: the byte at each (signed) offset from the pointer.
  The C code indexes it without bounds checks, so the model is total; the bounds of the
  object the pointer refers to are stated in the theorems, not in the memory.
\<close>

type_synonym mem = "int \<Rightarrow> u8"

text \<open>\<open>memset(p + d, v, n)\<close> and \<open>memcpy(p + d, q + s, n)\<close> on such memories.\<close>

definition memset :: "mem \<Rightarrow> int \<Rightarrow> u8 \<Rightarrow> int \<Rightarrow> mem" where
  "memset m d v n = (\<lambda>i. if d \<le> i \<and> i < d + n then v else m i)"

definition memcpy :: "mem \<Rightarrow> int \<Rightarrow> mem \<Rightarrow> int \<Rightarrow> int \<Rightarrow> mem" where
  "memcpy m d src s n = (\<lambda>i. if d \<le> i \<and> i < d + n then src (s + (i - d)) else m i)"

section \<open>DOS SoundBlaster output (out\_dossb.c)\<close>

text \<open>
  The fields of the hardware layer's \<open>sb\<close> structure that the driver reads. The header
  declaring it is not part of the sources, so the two tests \<open>sb.caps & SBMODE_16BITS\<close>
  and \<open>sb.caps & SBMODE_STEREO\<close> are kept as the two booleans they compute, and the
  maximal frequencies are taken as they compare with the unsigned rate.
  \<open>dma_linear\<close> is \<open>sb.dma_buff->linear\<close>, \<open>dma_buff_size\<close> is \<open>sb.dma_buff->size\<close>.
\<close>

record sb_state =
  caps_16bits :: bool
  caps_stereo :: bool
  maxfreq_mono :: u32
  maxfreq_stereo :: u32
  dma_linear :: mem
  dma_buff_size :: u32

text \<open>Calls into the hardware layer, in the order the driver makes them.\<close>

datatype sb_call =
    SbOpen
  | SbOutput bool
  | SbStartDma bool bool bool u32
  | SbStopDma
  | SbClose
  | SbMemcpy int int int

text \<open>
  The driver's own state: the static \<open>buff_tail\<close>, the hardware structure, and the
  trace of hardware calls and of copies into the DMA buffer
  (\<open>SbMemcpy d s n\<close>: \<open>n\<close> bytes to offset \<open>d\<close> of the DMA buffer from offset \<open>s\<close> of the
  caller's data).
\<close>

record sb_drv =
  buff_tail :: u32
  sb :: sb_state
  sb_calls :: "sb_call list"

definition sb_log :: "sb_call \<Rightarrow> sb_drv \<Rightarrow> sb_drv" where
  "sb_log c s = s\<lparr>sb_calls := sb_calls s @ [c]\<rparr>"

subsection \<open>pause\<close>

definition pause_sb_output :: "sb_drv \<Rightarrow> sb_drv" where
  "pause_sb_output s =
     (if caps_16bits (sb s)
      then s\<lparr>sb := (sb s)\<lparr>dma_linear := memset (dma_linear (sb s)) 0 0 (uint (dma_buff_size (sb s)))\<rparr>\<rparr>
      else s\<lparr>sb := (sb s)\<lparr>dma_linear := memset (dma_linear (sb s)) 0 0x80 (uint (dma_buff_size (sb s)))\<rparr>\<rparr>)"

subsection \<open>close\<close>

definition close_sb_output :: "sb_drv \<Rightarrow> sb_drv" where
  "close_sb_output s = sb_log SbClose (sb_log SbStopDma (sb_log (SbOutput False) s))"

subsection \<open>open\<close>

text \<open>
  \<open>open_sb_output\<close>. The results of \<open>sb_open()\<close> and \<open>sb_start_dma()\<close> are inputs of the
  model; the function returns the C return value, the caller's \<open>*rate\<close> and the driver
  state. The mode passed to \<open>sb_start_dma\<close> is recorded as its three flags
  (16 bits, signed, stereo).
\<close>

definition open_sb_output :: "bool \<Rightarrow> bool \<Rightarrow> u32 \<Rightarrow> sb_drv \<Rightarrow> int \<times> u32 \<times> sb_drv" where
  "open_sb_output sb_open_ok start_dma_ok rate s =
     (let s = sb_log SbOpen s in
      if \<not> sb_open_ok then (-1, rate, s)
      else
        let rate = (if rate < 4000 then 4000 else rate);
            rate = (if caps_stereo (sb s)
                    then (if rate > maxfreq_stereo (sb s) then maxfreq_stereo (sb s) else rate)
                    else (if rate > maxfreq_mono (sb s) then maxfreq_mono (sb s) else rate));
            s = sb_log (SbOutput True) s;
            s = s\<lparr>buff_tail := 0\<rparr>;
            s = sb_log (SbStartDma (caps_16bits (sb s)) (caps_16bits (sb s)) (caps_stereo (sb s)) rate) s
        in if \<not> start_dma_ok
           then (-1, rate, sb_log SbClose (sb_log (SbOutput False) s))
           else (0, rate, s))"

text \<open>The device maximum for the negotiated channel mode.\<close>

definition sb_maxfreq :: "sb_state \<Rightarrow> u32" where
  "sb_maxfreq h = (if caps_stereo h then maxfreq_stereo h else maxfreq_mono h)"

subsection \<open>write\<close>

text \<open>One \<open>memcpy\<close> into the DMA buffer, recorded in the trace.\<close>

definition sb_memcpy :: "int \<Rightarrow> mem \<Rightarrow> int \<Rightarrow> int \<Rightarrow> sb_drv \<Rightarrow> sb_drv" where
  "sb_memcpy d data off n s =
     sb_log (SbMemcpy d off n)
       (s\<lparr>sb := (sb s)\<lparr>dma_linear := memcpy (dma_linear (sb s)) d data off n\<rparr>\<rparr>)"

text \<open>
  \<open>write_sb_common(data, siz)\<close>. The pair \<open>q\<close> is what \<open>sb_query_dma\<close> stores into
  \<open>dma_size\<close> and \<open>dma_pos\<close>; the pointer \<open>data\<close> is the caller's memory with the offset
  \<open>off\<close> reached so far. \<open>siz\<close> is the C \<open>int\<close> as its 32 bits: the function uses it only
  converted to \<open>unsigned int\<close> or compared with zero. The result is \<open>cnt\<close>, which the C
  function returns converted to \<open>int\<close>.
\<close>

definition write_sb_common :: "u32 \<times> u32 \<Rightarrow> mem \<Rightarrow> int \<Rightarrow> u32 \<Rightarrow> sb_drv \<Rightarrow> u32 \<times> sb_drv" where
  "write_sb_common q data off siz s =
     (let dma_size = fst q;
          dma_pos = snd q AND NOT 255
      in if buff_tail s = dma_pos then (0, s)
         else if dma_pos > buff_tail s then
           (let cnt = dma_pos - buff_tail s;
                cnt = (if cnt > siz then siz else cnt);
                s = sb_memcpy (uint (buff_tail s)) data off (uint cnt) s;
                s = s\<lparr>buff_tail := buff_tail s + cnt\<rparr>;
                s = (if buff_tail s \<ge> dma_size then s\<lparr>buff_tail := 0\<rparr> else s)
            in (cnt, s))
         else
           (let cnt = dma_size - buff_tail s;
                cnt = (if cnt > siz then siz else cnt);
                s = sb_memcpy (uint (buff_tail s)) data off (uint cnt) s;
                s = s\<lparr>buff_tail := buff_tail s + cnt\<rparr>;
                siz = siz - cnt
            in if siz = 0 then (cnt, s)
               else
                 (let dma_pos = (if dma_pos > siz then siz else dma_pos);
                      off = off + uint cnt;
                      cnt = cnt + dma_pos;
                      s = sb_memcpy 0 data off (uint dma_pos) s;
                      s = s\<lparr>buff_tail := dma_pos\<rparr>
                  in (cnt, s))))"

text \<open>
  The signed 16-bit sample number \<open>p\<close> of a memory read through an \<open>int16_t *\<close>:
  bytes \<open>2p\<close> and \<open>2p + 1\<close>, low byte first (the driver runs on x86), promoted to \<open>int\<close>.
\<close>

definition s16_at :: "mem \<Rightarrow> int \<Rightarrow> int" where
  "s16_at m p = sint (word_cat (m (2 * p + 1)) (m (2 * p)) :: 16 word)"

text \<open>
  The two conversion loops of \<open>write_sb_output\<close>,
  \<open>for (; i >= 0; --i) *dst++ = (*src++ >> 8) + 128;\<close> and its mono sibling.
  \<open>src\<close> and \<open>dst\<close> start at \<open>data\<close> and advance together, so one index \<open>p\<close> stands for
  both: \<open>dst\<close> is at byte \<open>p\<close>, \<open>src\<close> at sample \<open>p\<close> (stereo) or \<open>2p\<close> (mono).
  \<open>>>\<close> on a negative \<open>int\<close> is the arithmetic shift, \<open>drop_bit\<close> on \<open>int\<close>; the
  store into \<open>uint8_t\<close> keeps the low 8 bits (\<open>to_u8\<close>).
\<close>

definition to_u8 :: "int \<Rightarrow> u8" where
  "to_u8 x = word_of_int x"

function conv_stereo8 :: "int \<Rightarrow> int \<Rightarrow> mem \<Rightarrow> mem" where
  "conv_stereo8 i p m =
     (if i \<ge> 0
      then conv_stereo8 (i - 1) (p + 1) (m(p := to_u8 (drop_bit 8 (s16_at m p) + 128)))
      else m)"
  by pat_completeness auto
termination
  by (relation "measure (\<lambda>(i, p, m). nat (i + 1))") auto

function conv_mono8 :: "int \<Rightarrow> int \<Rightarrow> mem \<Rightarrow> mem" where
  "conv_mono8 i p m =
     (if i \<ge> 0
      then conv_mono8 (i - 1) (p + 1)
             (m(p := to_u8 (drop_bit 9 (s16_at m (2 * p) + s16_at m (2 * p + 1)) + 128)))
      else m)"
  by pat_completeness auto
termination
  by (relation "measure (\<lambda>(i, p, m). nat (i + 1))") auto

declare conv_stereo8.simps [simp del] conv_mono8.simps [simp del]

text \<open>C's \<open>/\<close> on \<open>int\<close> truncates towards zero.\<close>

definition c_div :: "int \<Rightarrow> int \<Rightarrow> int" where
  "c_div a b = sgn a * sgn b * (\<bar>a\<bar> div \<bar>b\<bar>)"

text \<open>
  The first part of \<open>write_sb_output\<close>: the in-place conversion chosen by the hardware
  mode. It returns the caller's memory after the conversion and the new \<open>siz\<close>.
\<close>

definition sb_convert :: "sb_state \<Rightarrow> mem \<Rightarrow> int \<Rightarrow> mem \<times> int" where
  "sb_convert h data siz =
     (if caps_16bits h then (data, siz)
      else if caps_stereo h then
        (let siz = c_div siz 2 in (conv_stereo8 siz 0 data, siz))
      else
        (let siz = c_div siz 4 in (conv_mono8 siz 0 data, siz)))"

text \<open>
  The second part, \<open>while (1) { i = write_sb_common(data, siz); if ((siz -= i) <= 0)
  return 0; data += i; }\<close>. Each pass reads the hardware position once; the list holds
  the successive answers of \<open>sb_query_dma\<close>. The loop has no exit but delivery of all
  data, so a list that ends first gives \<open>None\<close>: the call has not returned.
\<close>

fun sb_deliver :: "(u32 \<times> u32) list \<Rightarrow> mem \<Rightarrow> int \<Rightarrow> int \<Rightarrow> sb_drv \<Rightarrow> int option \<times> sb_drv" where
  "sb_deliver [] data off siz s = (None, s)"
| "sb_deliver (q # qs) data off siz s =
     (let (cnt, s) = write_sb_common q data off (word_of_int siz) s;
          i = sint cnt;
          siz = siz - i
      in if siz \<le> 0 then (Some 0, s)
         else sb_deliver qs data (off + i) siz s)"

definition write_sb_output :: "(u32 \<times> u32) list \<Rightarrow> mem \<Rightarrow> int \<Rightarrow> sb_drv \<Rightarrow> int option \<times> mem \<times> sb_drv" where
  "write_sb_output qs data siz s =
     (let (data, siz) = sb_convert (sb s) data siz;
          (r, s) = sb_deliver qs data 0 siz s
      in (r, data, s))"

subsection \<open>The DMA ring as the copy routine sees it\<close>

text \<open>
  The free span between the write tail and the (rounded) read position, as unbounded
  integers: \<open>dma_pos - buff_tail\<close> when the read position is ahead of the tail,
  \<open>(dma_size - buff_tail) + dma_pos\<close> when the ring has wrapped.
\<close>

definition sb_free_span :: "u32 \<Rightarrow> u32 \<Rightarrow> u32 \<Rightarrow> int" where
  "sb_free_span dma_size dma_pos tail =
     (if dma_pos > tail then uint dma_pos - uint tail
      else (uint dma_size - uint tail) + uint dma_pos)"

text \<open>
  The unread region \<open>[dma_pos, buff_tail)\<close> modulo \<open>dma_size\<close>: submitted bytes that the
  hardware has not played yet. When both cursors are equal the routine takes the ring
  as full, and so does this predicate.
\<close>

definition sb_unread :: "u32 \<Rightarrow> u32 \<Rightarrow> u32 \<Rightarrow> int \<Rightarrow> bool" where
  "sb_unread dma_size dma_pos tail i =
     (0 \<le> i \<and> i < uint dma_size \<and>
      (if dma_pos < tail then uint dma_pos \<le> i \<and> i < uint tail
       else if tail < dma_pos then uint dma_pos \<le> i \<or> i < uint tail
       else True))"

text \<open>What a trace wrote into the DMA buffer: the offsets, the byte count, the copies.\<close>

fun sb_writes :: "sb_call list \<Rightarrow> int \<Rightarrow> bool" where
  "sb_writes [] i = False"
| "sb_writes (SbMemcpy d src n # cs) i = ((d \<le> i \<and> i < d + n) \<or> sb_writes cs i)"
| "sb_writes (c # cs) i = sb_writes cs i"

fun sb_copied :: "sb_call list \<Rightarrow> int" where
  "sb_copied [] = 0"
| "sb_copied (SbMemcpy d src n # cs) = n + sb_copied cs"
| "sb_copied (c # cs) = sb_copied cs"

text \<open>
  The states the copy routine can be called in: \<open>open_sb_output\<close> sets \<open>buff_tail\<close> to
  zero, and afterwards only \<open>write_sb_common\<close> changes it. The hardware reports a
  position inside its buffer of \<open>dma_size\<close> bytes; nothing else is assumed of it, nor of
  the caller's arguments.
\<close>

inductive sb_reach :: "u32 \<Rightarrow> sb_drv \<Rightarrow> bool" for dma_size :: u32 where
  sb_reach_open: "buff_tail s = 0 \<Longrightarrow> sb_reach dma_size s"
| sb_reach_write:
    "sb_reach dma_size s \<Longrightarrow> dma_pos < dma_size \<Longrightarrow>
     sb_reach dma_size (snd (write_sb_common (dma_size, dma_pos) data off siz s))"

subsection \<open>Sample states\<close>

text \<open>
  A SoundBlaster Pro as \<open>open_sb_output\<close> leaves it (8-bit stereo, a 4096-byte DMA
  buffer), and a caller's buffer holding the four samples 1000, -1000, 2000, -2000.
\<close>

definition sb_sample :: sb_drv where
  "sb_sample =
     \<lparr>buff_tail = 0,
      sb = \<lparr>caps_16bits = False, caps_stereo = True, maxfreq_mono = 44100,
            maxfreq_stereo = 22050, dma_linear = (\<lambda>i. 0), dma_buff_size = 4096\<rparr>,
      sb_calls = []\<rparr>"

definition pcm_sample :: mem where
  "pcm_sample =
     (\<lambda>i. if i = 0 then 0xE8 else if i = 1 then 0x03
          else if i = 2 then 0x18 else if i = 3 then 0xFC
          else if i = 4 then 0xD0 else if i = 5 then 0x07
          else if i = 6 then 0x30 else if i = 7 then 0xF8 else 0)"

text \<open>The same driver after a first write, the hardware having played 1100 bytes.\<close>

definition sb_sample1 :: sb_drv where
  "sb_sample1 = snd (write_sb_common (4096, 1100) pcm_sample 0 5000 sb_sample)"

section \<open>OS/2 DART output (out\_dart.c)\<close>

text \<open>
  The constants of the OS/2 multimedia headers that the completion callback compares
  its arguments with. The headers are not among the sources; the values are those of
  the OS/2 toolkit, and nothing below depends on them except that a callback is told
  apart by them.
\<close>

definition MIX_WRITE_COMPLETE :: u32 where
  "MIX_WRITE_COMPLETE = 0x2"

definition MIX_STREAM_ERROR :: u32 where
  "MIX_STREAM_ERROR = 0x80"

definition ERROR_DEVICE_UNDERRUN :: u32 where
  "ERROR_DEVICE_UNDERRUN = 5626"

text \<open>Calls to the operating system and copies into the mix buffers, as a trace.\<close>

datatype dart_call =
    DosCreateMutexSem
  | MciOpen
  | MciMixSetup u32
  | MciAllocate u32
  | MciDeallocate
  | MciClose u32
  | PmixWrite int nat
  | DartMemset int int
  | DartMemcpy int int int
  | DartPrintf

text \<open>
  The file's static variables. \<open>nxt\<close> is \<open>next\<close>; \<open>idx\<close> is the static local of
  \<open>write_dart_output\<close>. \<open>pBuffer i\<close> is the pointer \<open>MixBuffers[i].pBuffer\<close>, an
  address (0 is \<open>NULL\<close>), and \<open>ulBufferLength i\<close> the length field of \<open>MixBuffers[i]\<close>.
  \<open>dart_mem\<close> is the memory of the process by address: the mix buffers lie in it
  wherever the mixer allocated them, and a copy that runs past the end of a buffer
  lands in whatever follows. The two \<open>short\<close> counters and \<open>idx\<close> are unbounded
  integers here; the theorems bound them where that matters.

  \<open>submitted\<close> is not a variable of the program: it is the mixer's side of the
  protocol, the number of buffers handed over by \<open>pmixWrite\<close> whose completion the
  mixer has not reported yet.
\<close>

record dart_state =
  DeviceID :: u32
  bsize :: u32
  nxt :: int
  ready :: int
  idx :: int
  pBuffer :: "int \<Rightarrow> int"
  dart_mem :: mem
  ulBufferLength :: "int \<Rightarrow> u32"
  submitted :: nat
  dart_calls :: "dart_call list"

definition BUFFERCOUNT :: int where
  "BUFFERCOUNT = 4"

text \<open>
  The test \<open>if (MixBuffers[0].pBuffer)\<close> on the marker, and the memory a slot's pointer
  refers to, by offset from the pointer.
\<close>

definition pBuffer0 :: "dart_state \<Rightarrow> bool" where
  "pBuffer0 s = (pBuffer s 0 \<noteq> 0)"

definition buffers :: "dart_state \<Rightarrow> int \<Rightarrow> mem" where
  "buffers s slot = (\<lambda>i. dart_mem s (pBuffer s slot + i))"

text \<open>The initial values of the statics, before any call.\<close>

definition dart_statics :: dart_state where
  "dart_statics =
     \<lparr>DeviceID = 0, bsize = 16, nxt = 2, ready = 1, idx = 0, pBuffer = (\<lambda>i. 0),
      dart_mem = (\<lambda>a. 0), ulBufferLength = (\<lambda>i. 0), submitted = 0, dart_calls = []\<rparr>"

definition dart_log :: "dart_call \<Rightarrow> dart_state \<Rightarrow> dart_state" where
  "dart_log c s = s\<lparr>dart_calls := dart_calls s @ [c]\<rparr>"

subsection \<open>The completion callback\<close>

text \<open>\<open>OS2_Dart_UpdateBuffers(ulStatus, pBuffer, ulFlags)\<close>; \<open>pBuffer\<close> is unused.\<close>

definition OS2_Dart_UpdateBuffers :: "u32 \<Rightarrow> u32 \<Rightarrow> dart_state \<Rightarrow> dart_state" where
  "OS2_Dart_UpdateBuffers ulStatus ulFlags s =
     (if ulFlags = MIX_WRITE_COMPLETE \<or>
         (ulFlags = (MIX_WRITE_COMPLETE OR MIX_STREAM_ERROR) \<and> ulStatus = ERROR_DEVICE_UNDERRUN)
      then s\<lparr>ready := ready s + 1\<rparr>
      else s)"

text \<open>
  The mixer finishing one submitted buffer: it takes the buffer off its queue and calls
  the callback with a status and flags.
\<close>

definition dart_complete :: "u32 \<times> u32 \<Rightarrow> dart_state \<Rightarrow> dart_state" where
  "dart_complete e s = OS2_Dart_UpdateBuffers (fst e) (snd e) (s\<lparr>submitted := submitted s - 1\<rparr>)"

text \<open>\<open>pmixWrite(handle, &MixBuffers[first], n)\<close>: \<open>n\<close> buffers go to the mixer.\<close>

definition pmixWrite :: "int \<Rightarrow> nat \<Rightarrow> dart_state \<Rightarrow> dart_state" where
  "pmixWrite first n s = dart_log (PmixWrite first n) (s\<lparr>submitted := submitted s + n\<rparr>)"

subsection \<open>open\<close>

text \<open>
  The loop \<open>for (i = 15; i >= 12; i--) if (bsize & (1 << i)) break;\<close>, returning the
  value of \<open>i\<close> after it.
\<close>

function dart_find_bit :: "u32 \<Rightarrow> int \<Rightarrow> int" where
  "dart_find_bit b i =
     (if i \<ge> 12
      then (if b AND push_bit (nat i) 1 \<noteq> 0 then i else dart_find_bit b (i - 1))
      else i)"
  by pat_completeness auto
termination
  by (relation "measure (\<lambda>(b, i). nat (i - 11))") auto

declare dart_find_bit.simps [simp del]

text \<open>The computation of \<open>bsize\<close> from \<open>*rate\<close> at the start of \<open>open_dart_output\<close>.\<close>

definition dart_buffer_size :: "u32 \<Rightarrow> u32" where
  "dart_buffer_size rate =
     (let b = drop_bit 2 rate;
          b = push_bit 1 b;
          b = push_bit 1 b;
          i = dart_find_bit b 15;
          b = push_bit (nat i) 1
      in if b > 65536 then 65536 else b)"

text \<open>
  The same size as the specification words it, for comparison: the byte count of a
  quarter second of stereo 16-bit audio (\<open>rate / 4\<close> frames of 4 bytes), rounded down to
  the nearest power of two, capped at 64 KiB.
\<close>

function round_down_pow2 :: "nat \<Rightarrow> nat" where
  "round_down_pow2 n = (if n < 2 then n else 2 * round_down_pow2 (n div 2))"
  by pat_completeness auto
termination
  by (relation "measure (\<lambda>n. n)") auto

declare round_down_pow2.simps [simp del]

definition spec_buffer_size :: "nat \<Rightarrow> nat" where
  "spec_buffer_size rate = min 65536 (round_down_pow2 (rate div 4 * 4))"

text \<open>
  What the operating system answers during \<open>open\<close>: whether the mutex was created, the
  device id of \<open>MCI_OPEN\<close> (or its failure), whether \<open>MCI_MIXSETUP\<close> and the buffer
  allocation succeeded, and the addresses a successful allocation stores into
  \<open>MixBuffers[i].pBuffer\<close>.
\<close>

record dart_env =
  mutex_ok :: bool
  amp_open :: "u32 option"
  mixsetup_ok :: bool
  alloc_ok :: bool
  alloc_addr :: "int \<Rightarrow> int"

text \<open>\<open>memset(MixBuffers[slot].pBuffer, 0, n)\<close>.\<close>

definition dart_memset :: "int \<Rightarrow> int \<Rightarrow> dart_state \<Rightarrow> dart_state" where
  "dart_memset slot n s =
     dart_log (DartMemset slot n)
       (s\<lparr>dart_mem := memset (dart_mem s) (pBuffer s slot) 0 n\<rparr>)"

definition open_dart_output :: "dart_env \<Rightarrow> u32 \<Rightarrow> dart_state \<Rightarrow> int \<times> dart_state" where
  "open_dart_output env rate s =
     (let s = dart_log DosCreateMutexSem s in
      if \<not> mutex_ok env then (-1, s)
      else
        let s = s\<lparr>bsize := dart_buffer_size rate\<rparr>;
            s = s\<lparr>pBuffer := (pBuffer s)(0 := 0)\<rparr>;
            s = dart_log MciOpen s
        in case amp_open env of
             None \<Rightarrow> (-1, s)
           | Some dev \<Rightarrow>
               let s = s\<lparr>DeviceID := dev\<rparr>;
                   s = dart_log (MciMixSetup rate) s
               in if \<not> mixsetup_ok env then (-1, dart_log (MciClose (DeviceID s)) s)
                  else
                    let s = dart_log (MciAllocate (bsize s)) s
                    in if \<not> alloc_ok env then (-1, dart_log (MciClose (DeviceID s)) s)
                       else
                         let s = s\<lparr>pBuffer :=
                                     (\<lambda>i. if 0 \<le> i \<and> i < BUFFERCOUNT then alloc_addr env i
                                          else pBuffer s i)\<rparr>;
                             s = s\<lparr>ulBufferLength :=
                                     (\<lambda>i. if 0 \<le> i \<and> i < BUFFERCOUNT then bsize s
                                          else ulBufferLength s i)\<rparr>;
                             s = dart_memset 0 (uint (bsize s)) s;
                             s = dart_memset 1 (uint (bsize s)) s;
                             s = pmixWrite 0 2 s
                         in (0, s))"

subsection \<open>write\<close>

text \<open>
  The statements of \<open>write_dart_output(output_data, output_size)\<close>, one definition
  each. The test \<open>idx + output_size > bsize\<close> compares an \<open>int\<close> with an
  \<open>unsigned long\<close>, so the sum is converted to 32 bits unsigned; \<open>memcpy\<close> takes
  \<open>output_size\<close> converted to \<open>size_t\<close> and writes at the address
  \<open>&((char *)MixBuffers[next].pBuffer)[idx]\<close>. \<open>dart_dec\<close> is \<open>ready--\<close> when nothing
  comes between its load and its store.
\<close>

definition dart_overflows :: "int \<Rightarrow> dart_state \<Rightarrow> bool" where
  "dart_overflows output_size s = ((word_of_int (idx s + output_size) :: u32) > bsize s)"

definition dart_submit :: "dart_state \<Rightarrow> dart_state" where
  "dart_submit s =
     pmixWrite (nxt s) 1
       (s\<lparr>ulBufferLength := (ulBufferLength s)(nxt s := word_of_int (idx s))\<rparr>)"

definition dart_dec :: "dart_state \<Rightarrow> dart_state" where
  "dart_dec s = s\<lparr>ready := ready s - 1\<rparr>"

definition dart_advance :: "dart_state \<Rightarrow> dart_state" where
  "dart_advance s =
     (let s = s\<lparr>nxt := nxt s + 1\<rparr>;
          s = s\<lparr>idx := 0\<rparr>
      in if nxt s = BUFFERCOUNT then s\<lparr>nxt := 0\<rparr> else s)"

definition dart_copy :: "mem \<Rightarrow> int \<Rightarrow> dart_state \<Rightarrow> dart_state" where
  "dart_copy output_data output_size s =
     (let n = uint (word_of_int output_size :: u32);
          s = dart_log (DartMemcpy (nxt s) (idx s) n)
                (s\<lparr>dart_mem :=
                     memcpy (dart_mem s) (pBuffer s (nxt s) + idx s) output_data 0 n\<rparr>)
      in s\<lparr>idx := idx s + output_size\<rparr>)"

text \<open>
  The waiting loop \<open>do { lock; if (ready != 0) { unlock; break; } unlock; DosSleep(20); }
  while (TRUE)\<close>. The callback runs in the mixer's thread, so the schedule gives, for
  each \<open>DosSleep\<close>, the completions (status and flags) that arrive during it. The loop
  has no other exit: when the schedule ends and \<open>ready\<close> is still zero the result is
  \<open>None\<close>, the writer is blocked.
\<close>

fun dart_wait :: "(u32 \<times> u32) list list \<Rightarrow> dart_state \<Rightarrow> dart_state option" where
  "dart_wait [] s = (if ready s \<noteq> 0 then Some s else None)"
| "dart_wait (evs # sched) s =
     (if ready s \<noteq> 0 then Some s else dart_wait sched (fold dart_complete evs s))"

definition write_dart_output ::
    "(u32 \<times> u32) list list \<Rightarrow> mem \<Rightarrow> int \<Rightarrow> dart_state \<Rightarrow> (int \<times> dart_state) option" where
  "write_dart_output sched output_data output_size s =
     (if dart_overflows output_size s
      then (case dart_wait sched s of
              None \<Rightarrow> None
            | Some s \<Rightarrow>
                Some (0, dart_copy output_data output_size
                           (dart_advance (dart_dec (dart_submit s)))))
      else Some (0, dart_copy output_data output_size s))"

text \<open>The state after the completions of a whole list of sleeps.\<close>

definition dart_after :: "(u32 \<times> u32) list list \<Rightarrow> dart_state \<Rightarrow> dart_state" where
  "dart_after sched s = fold dart_complete (concat sched) s"

subsection \<open>close\<close>

definition close_dart_output :: "dart_state \<Rightarrow> dart_state" where
  "close_dart_output s =
     (let s = dart_log DartPrintf s;
          s = (if pBuffer0 s then (dart_log MciDeallocate s)\<lparr>pBuffer := (pBuffer s)(0 := 0)\<rparr>
               else s)
      in if DeviceID s \<noteq> 0 then (dart_log (MciClose (DeviceID s)) s)\<lparr>DeviceID := 0\<rparr> else s)"

text \<open>The calls of a trace that release a resource.\<close>

fun dart_releases :: "dart_call list \<Rightarrow> dart_call list" where
  "dart_releases [] = []"
| "dart_releases (MciDeallocate # cs) = MciDeallocate # dart_releases cs"
| "dart_releases (MciClose d # cs) = MciClose d # dart_releases cs"
| "dart_releases (c # cs) = dart_releases cs"

text \<open>The copies into mix buffers of a trace, as (slot, offset, length).\<close>

fun dart_copies :: "dart_call list \<Rightarrow> (int \<times> int \<times> int) list" where
  "dart_copies [] = []"
| "dart_copies (DartMemcpy slot off n # cs) = (slot, off, n) # dart_copies cs"
| "dart_copies (c # cs) = dart_copies cs"

subsection \<open>Writer and mixer interleaved\<close>

text \<open>
  The writer's position inside \<open>write_dart_output\<close>, for the interleaving with the
  callback: one step per statement that touches \<open>ready\<close> or talks to the mixer.
  The reading of \<open>ready\<close> in the waiting loop is inside the mutex and is one step.
  \<open>ready--\<close> is outside the mutex: it is two steps, the load of \<open>ready\<close> (after which
  the writer is at \<open>Store v\<close>, holding the value \<open>v\<close> it has read) and the store of
  \<open>v - 1\<close>, and the callback can run between them.
\<close>

datatype wpc = Idle | Check | Poll | Sleep | Submit | Dec | Store int | Advance | Copy

fun dart_wstep :: "mem \<Rightarrow> int \<Rightarrow> wpc \<Rightarrow> dart_state \<Rightarrow> wpc \<times> dart_state" where
  "dart_wstep d n Idle s = (Idle, s)"
| "dart_wstep d n Check s = (if dart_overflows n s then (Poll, s) else (Copy, s))"
| "dart_wstep d n Poll s = (if ready s \<noteq> 0 then (Submit, s) else (Sleep, s))"
| "dart_wstep d n Sleep s = (Poll, s)"
| "dart_wstep d n Submit s = (Dec, dart_submit s)"
| "dart_wstep d n Dec s = (Store (ready s), s)"
| "dart_wstep d n (Store v) s = (Advance, s\<lparr>ready := v - 1\<rparr>)"
| "dart_wstep d n Advance s = (Copy, dart_advance s)"
| "dart_wstep d n Copy s = (Idle, dart_copy d n s)"

text \<open>Whether the writer is between the load and the store of \<open>ready--\<close>, and whether
  it is between \<open>pmixWrite\<close> and that store.\<close>

fun dart_in_store :: "wpc \<Rightarrow> bool" where
  "dart_in_store (Store v) = True"
| "dart_in_store pc = False"


text \<open>
  A completion the callback counts: \<open>MIX_WRITE_COMPLETE\<close>, alone or with a stream
  error whose status is the device underrun. With any other flags the callback returns
  without touching \<open>ready\<close>.
\<close>

definition dart_counted :: "u32 \<times> u32 \<Rightarrow> bool" where
  "dart_counted e =
     (snd e = MIX_WRITE_COMPLETE \<or>
      (snd e = (MIX_WRITE_COMPLETE OR MIX_STREAM_ERROR) \<and> fst e = ERROR_DEVICE_UNDERRUN))"

text \<open>
  The configurations (writer position, arguments of the running call, state) reachable
  from a successful \<open>open\<close> on the initial statics by any interleaving of: a new call of
  \<open>write_dart_output\<close>, one step of the running call, and the mixer completing one of
  the buffers it holds and calling the callback, with any status and flags.

  The last component is not part of the program. It counts the completions whose
  increment of \<open>ready\<close> is not kept: those the callback does not count, and those that
  arrive between the load and the store of \<open>ready--\<close>, which the store overwrites.
\<close>

inductive dart_reach :: "wpc \<times> mem \<times> int \<times> dart_state \<times> nat \<Rightarrow> bool" where
  dart_reach_open:
    "open_dart_output env rate dart_statics = (0, s) \<Longrightarrow> dart_reach (Idle, d, n, s, 0)"
| dart_reach_call:
    "dart_reach (Idle, d, n, s, lost) \<Longrightarrow> dart_reach (Check, d', n', s, lost)"
| dart_reach_step:
    "dart_reach (pc, d, n, s, lost) \<Longrightarrow> pc \<noteq> Idle \<Longrightarrow> dart_wstep d n pc s = (pc', s') \<Longrightarrow>
     dart_reach (pc', d, n, s', lost)"
| dart_reach_complete:
    "dart_reach (pc, d, n, s, lost) \<Longrightarrow> submitted s > 0 \<Longrightarrow>
     dart_reach (pc, d, n, dart_complete e s,
                 (if dart_counted e \<and> \<not> dart_in_store pc then lost else Suc lost))"


text \<open>
  A schedule the mixer can produce while the writer waits: in each sleep it completes
  no more buffers than it holds.
\<close>

fun dart_feasible :: "(u32 \<times> u32) list list \<Rightarrow> dart_state \<Rightarrow> bool" where
  "dart_feasible [] s = True"
| "dart_feasible (evs # sched) s =
     (ready s \<noteq> 0 \<or>
      (length evs \<le> submitted s \<and> dart_feasible sched (fold dart_complete evs s)))"

text \<open>
  A mixer that answers every request of \<open>open\<close> with success and puts the four buffers
  one after the other from address 65536; then the same mixer with a failing mixer
  setup, and with a failing allocation.
\<close>

definition dart_env_ok :: dart_env where
  "dart_env_ok =
     \<lparr>mutex_ok = True, amp_open = Some 1, mixsetup_ok = True, alloc_ok = True,
      alloc_addr = (\<lambda>i. 65536 + 32768 * i)\<rparr>"

definition dart_env_nosetup :: dart_env where
  "dart_env_nosetup = dart_env_ok\<lparr>mixsetup_ok := False\<rparr>"

definition dart_env_noalloc :: dart_env where
  "dart_env_noalloc = dart_env_ok\<lparr>alloc_ok := False\<rparr>"

text \<open>
  The state after a successful \<open>open\<close> at 44100 Hz, and a later state in which the
  current buffer is nearly full and every other buffer is with the mixer.
\<close>

definition dart_opened :: dart_state where
  "dart_opened = snd (open_dart_output dart_env_ok 44100 dart_statics)"

definition dart_full :: dart_state where
  "dart_full = dart_opened\<lparr>idx := 32760, ready := 0, submitted := 3\<rparr>"


section \<open>ALSA output (out\_alsa.c)\<close>

text \<open>
  Calls to the ALSA library, as a trace. \<open>SndPcmWritei off frames err\<close> is
  \<open>snd_pcm_writei(pcm, data + off, frames)\<close> returning \<open>err\<close>; when \<open>err\<close> is not
  negative the library has taken the first \<open>err\<close> frames of what it was passed.
\<close>

datatype alsa_call =
    SndPcmOpen string
  | SndPcmNegotiate
  | SndPcmWritei int int int
  | SndPcmPrepare int
  | SndPcmStart
  | SndPcmClose nat
  | AlsaPrintf
  | AlsaStderr

text \<open>The file's statics: the stream handle \<open>pcm\<close> (\<open>None\<close> is \<open>NULL\<close>) and \<open>alsa_first_time\<close>.\<close>

record alsa_state =
  pcm :: "nat option"
  alsa_first_time :: bool
  alsa_calls :: "alsa_call list"

definition alsa_statics :: alsa_state where
  "alsa_statics = \<lparr>pcm = None, alsa_first_time = True, alsa_calls = []\<rparr>"

definition alsa_log :: "alsa_call \<Rightarrow> alsa_state \<Rightarrow> alsa_state" where
  "alsa_log c s = s\<lparr>alsa_calls := alsa_calls s @ [c]\<rparr>"

subsection \<open>close\<close>

definition close_alsa_output :: "alsa_state \<Rightarrow> alsa_state" where
  "close_alsa_output s =
     (case pcm s of
        None \<Rightarrow> s
      | Some h \<Rightarrow> (alsa_log (SndPcmClose h) (alsa_log AlsaPrintf s))\<lparr>pcm := None\<rparr>)"

text \<open>The calls of a trace that release the stream.\<close>

fun alsa_releases :: "alsa_call list \<Rightarrow> alsa_call list" where
  "alsa_releases [] = []"
| "alsa_releases (SndPcmClose h # cs) = SndPcmClose h # alsa_releases cs"
| "alsa_releases (c # cs) = alsa_releases cs"

subsection \<open>open\<close>

text \<open>
  What the library answers during \<open>open\<close>: the handle of \<open>snd_pcm_open\<close> (or its
  failure, which leaves \<open>pcm\<close> as it was), the rate chosen by
  \<open>snd_pcm_hw_params_set_rate_near\<close>, and for the other negotiation calls whether each
  succeeded, in the order of the source: any, access, format, channels, (rate),
  buffer time, period time, hw params, sw params.
\<close>

record alsa_env =
  pcm_open :: "nat option"
  hw_any_ok :: bool
  access_ok :: bool
  format_ok :: bool
  channels_ok :: bool
  rate_near :: "u32 option"
  buffer_time_ok :: bool
  period_time_ok :: bool
  hw_params_ok :: bool
  sw_params_ok :: bool

text \<open>The \<open>fail:\<close> label: a message has been printed; close and return -1.\<close>

definition alsa_fail :: "u32 \<Rightarrow> alsa_state \<Rightarrow> int \<times> u32 \<times> alsa_state" where
  "alsa_fail rate s = (-1, rate, close_alsa_output (alsa_log AlsaStderr s))"

definition open_alsa_output :: "alsa_env \<Rightarrow> string \<Rightarrow> u32 \<Rightarrow> alsa_state \<Rightarrow> int \<times> u32 \<times> alsa_state" where
  "open_alsa_output env pcmname rate s =
     (let r = rate;
          pcmname = (if pcmname = [] then ''default'' else pcmname);
          s = alsa_log (SndPcmOpen pcmname) s
      in case pcm_open env of
           None \<Rightarrow> (-1, rate, alsa_log AlsaStderr s)
         | Some h \<Rightarrow>
             let s = s\<lparr>pcm := Some h\<rparr>;
                 s = alsa_log SndPcmNegotiate s
             in if \<not> hw_any_ok env then alsa_fail rate s
                else if \<not> access_ok env then alsa_fail rate s
                else if \<not> format_ok env then alsa_fail rate s
                else if \<not> channels_ok env then alsa_fail rate s
                else case rate_near env of
                       None \<Rightarrow> alsa_fail rate s
                     | Some rate \<Rightarrow>
                         let s = (if r \<noteq> rate then alsa_log AlsaStderr s else s)
                         in if \<not> buffer_time_ok env then alsa_fail rate s
                            else if \<not> period_time_ok env then alsa_fail rate s
                            else if \<not> hw_params_ok env then alsa_fail rate s
                            else if \<not> sw_params_ok env then alsa_fail rate s
                            else (0, rate, s))"

subsection \<open>write\<close>

text \<open>
  \<open>open\<close> negotiates two channels of signed 16-bit samples, so a frame is 4 bytes and
  the library's two conversions are a division and a multiplication by 4.
\<close>

definition snd_pcm_bytes_to_frames :: "int \<Rightarrow> int" where
  "snd_pcm_bytes_to_frames n = c_div n 4"

definition snd_pcm_frames_to_bytes :: "int \<Rightarrow> int" where
  "snd_pcm_frames_to_bytes f = f * 4"

text \<open>
  What the library answers in one pass of the loop of \<open>write_alsa_output\<close>: the
  value of \<open>snd_pcm_writei\<close>, and, looked at only when that is negative, whether
  \<open>snd_pcm_state\<close> is \<open>SND_PCM_STATE_XRUN\<close> and the value of \<open>snd_pcm_prepare\<close>.
\<close>

record alsa_reply =
  writei_ret :: int
  state_xrun :: bool
  prepare_ret :: int

text \<open>
  The loop \<open>while (output_size > 0)\<close>. \<open>off\<close> is how far \<open>output_data\<close> has advanced
  from \<open>data\<close>. The bytes themselves do not influence the loop; the trace records
  which part of the caller's buffer each call passes. The loop can go on for ever
  (an underrun that persists, a size that is not a whole number of frames), so the
  replies are a list, and a list that ends before the loop does gives \<open>None\<close>.
\<close>

fun write_alsa_loop :: "alsa_reply list \<Rightarrow> int \<Rightarrow> int \<Rightarrow> alsa_state \<Rightarrow> int option \<times> alsa_state" where
  "write_alsa_loop [] off output_size s =
     (if output_size > 0 then (None, s) else (Some 0, s))"
| "write_alsa_loop (r # rs) off output_size s =
     (if output_size > 0 then
        (let frames = snd_pcm_bytes_to_frames output_size;
             err = writei_ret r;
             s = alsa_log (SndPcmWritei off frames err) s
         in if err < 0 then
              (if state_xrun r then
                 (let err = prepare_ret r;
                      s = alsa_log (SndPcmPrepare err) s;
                      s = (if err < 0 then alsa_log AlsaStderr s else s);
                      s = s\<lparr>alsa_first_time := True\<rparr>
                  in write_alsa_loop rs off output_size s)
               else (Some err, s))
            else
              (let output_size = output_size - snd_pcm_frames_to_bytes err;
                   off = off + snd_pcm_frames_to_bytes err;
                   s = (if alsa_first_time s
                        then alsa_log SndPcmStart (s\<lparr>alsa_first_time := False\<rparr>)
                        else s)
               in write_alsa_loop rs off output_size s))
      else (Some 0, s))"

definition write_alsa_output :: "alsa_reply list \<Rightarrow> int \<Rightarrow> alsa_state \<Rightarrow> int option \<times> alsa_state" where
  "write_alsa_output rs output_size s = write_alsa_loop rs 0 output_size s"

text \<open>
  The bytes of the caller's buffer \<open>data\<close> that the library has taken, in order, and
  whether the library never claimed to take more frames than it was passed.
\<close>

fun alsa_delivered :: "mem \<Rightarrow> alsa_call list \<Rightarrow> u8 list" where
  "alsa_delivered data [] = []"
| "alsa_delivered data (SndPcmWritei off frames err # cs) =
     (if err \<ge> 0 then map data [off..off + 4 * err - 1] else []) @ alsa_delivered data cs"
| "alsa_delivered data (c # cs) = alsa_delivered data cs"

fun alsa_os_ok :: "alsa_call list \<Rightarrow> bool" where
  "alsa_os_ok [] = True"
| "alsa_os_ok (SndPcmWritei off frames err # cs) = (err \<le> frames \<and> alsa_os_ok cs)"
| "alsa_os_ok (c # cs) = alsa_os_ok cs"

text \<open>An opened stream, and replies of the library with an underrun in the middle.\<close>

definition alsa_opened :: alsa_state where
  "alsa_opened = \<lparr>pcm = Some 1, alsa_first_time = True, alsa_calls = []\<rparr>"

definition alsa_replies :: "alsa_reply list" where
  "alsa_replies =
     [\<lparr>writei_ret = 1, state_xrun = False, prepare_ret = 0\<rparr>,
      \<lparr>writei_ret = -32, state_xrun = True, prepare_ret = 0\<rparr>,
      \<lparr>writei_ret = 1, state_xrun = False, prepare_ret = 0\<rparr>]"

section \<open>Legacy DMA backend: pause\<close>

lemma memset_inside: "d \<le> i \<Longrightarrow> i < d + n \<Longrightarrow> memset m d v n i = v"
  by (simp add: memset_def)

lemma memset_outside: "i < d \<or> d + n \<le> i \<Longrightarrow> memset m d v n i = m i"
  by (auto simp: memset_def)

text \<open>
  C9. \<open>pause_sb_output\<close> fills every byte of the hardware DMA buffer, offsets
  \<open>0 .. sb.dma_buff->size - 1\<close>, with the silence value of the negotiated bit depth:
  \<open>0\<close> in 16-bit mode, \<open>0x80\<close> in 8-bit mode. Nothing outside the buffer and nothing
  else of the driver state changes.
\<close>

theorem pause_sb_output_fills_silence:
  "(\<forall>i. 0 \<le> i \<and> i < uint (dma_buff_size (sb s)) \<longrightarrow>
        dma_linear (sb (pause_sb_output s)) i = (if caps_16bits (sb s) then 0 else 0x80))
   \<and> (\<forall>i. i < 0 \<or> uint (dma_buff_size (sb s)) \<le> i \<longrightarrow>
        dma_linear (sb (pause_sb_output s)) i = dma_linear (sb s) i)
   \<and> buff_tail (pause_sb_output s) = buff_tail s
   \<and> sb_calls (pause_sb_output s) = sb_calls s
   \<and> dma_buff_size (sb (pause_sb_output s)) = dma_buff_size (sb s)
   \<and> caps_16bits (sb (pause_sb_output s)) = caps_16bits (sb s)"
  by (simp add: pause_sb_output_def memset_def)

theorem pause_sb_output_fills_silence_witness:
  "dma_linear (sb (pause_sb_output
      \<lparr>buff_tail = 512,
       sb = \<lparr>caps_16bits = False, caps_stereo = True, maxfreq_mono = 44100,
             maxfreq_stereo = 22050, dma_linear = (\<lambda>i. 7), dma_buff_size = 4096\<rparr>,
       sb_calls = []\<rparr>)) 4095 = 0x80
   \<and> dma_linear (sb (pause_sb_output
      \<lparr>buff_tail = 512,
       sb = \<lparr>caps_16bits = False, caps_stereo = True, maxfreq_mono = 44100,
             maxfreq_stereo = 22050, dma_linear = (\<lambda>i. 7), dma_buff_size = 4096\<rparr>,
       sb_calls = []\<rparr>)) 4096 = 7"
  using pause_sb_output_fills_silence
    [of "\<lparr>buff_tail = 512,
       sb = \<lparr>caps_16bits = False, caps_stereo = True, maxfreq_mono = 44100,
             maxfreq_stereo = 22050, dma_linear = (\<lambda>i. 7), dma_buff_size = 4096\<rparr>,
       sb_calls = []\<rparr>"]
  by simp

section \<open>Legacy DMA backend: open\<close>

text \<open>
  C7. When \<open>sb_open\<close> and \<open>sb_start_dma\<close> succeed, \<open>open_sb_output\<close> returns 0 and leaves
  in the caller's rate variable the requested rate clamped first from below to 4000 and
  then from above to the device maximum of the negotiated channel mode
  (\<open>maxfreq_stereo\<close> in stereo mode, \<open>maxfreq_mono\<close> otherwise). So the result never
  exceeds the device maximum, a rate above the maximum becomes the maximum, and, on a
  device whose maximum is not below the 4000 Hz floor, the result is at least 4000 and
  a rate below 4000 becomes exactly 4000. The DMA transfer is started with that same
  clamped rate.
\<close>

theorem open_sb_output_clamps_rate:
  "fst (open_sb_output True True rate s) = 0
   \<and> fst (snd (open_sb_output True True rate s)) = min (max rate 4000) (sb_maxfreq (sb s))
   \<and> fst (snd (open_sb_output True True rate s)) \<le> sb_maxfreq (sb s)
   \<and> (sb_maxfreq (sb s) < rate \<longrightarrow>
        fst (snd (open_sb_output True True rate s)) = sb_maxfreq (sb s))
   \<and> (4000 \<le> sb_maxfreq (sb s) \<longrightarrow>
        4000 \<le> fst (snd (open_sb_output True True rate s))
        \<and> (rate < 4000 \<longrightarrow> fst (snd (open_sb_output True True rate s)) = 4000))
   \<and> last (sb_calls (snd (snd (open_sb_output True True rate s))))
       = SbStartDma (caps_16bits (sb s)) (caps_16bits (sb s)) (caps_stereo (sb s))
           (fst (snd (open_sb_output True True rate s)))"
  by (auto simp: open_sb_output_def sb_maxfreq_def sb_log_def Let_def min_def max_def)

theorem open_sb_output_clamps_rate_witness:
  "(4000::u32) \<le> sb_maxfreq
       \<lparr>caps_16bits = False, caps_stereo = True, maxfreq_mono = 44100,
        maxfreq_stereo = 22050, dma_linear = (\<lambda>i. 0), dma_buff_size = 4096\<rparr>
   \<and> (3000::u32) < 4000
   \<and> fst (snd (open_sb_output True True 3000
        \<lparr>buff_tail = 512,
         sb = \<lparr>caps_16bits = False, caps_stereo = True, maxfreq_mono = 44100,
               maxfreq_stereo = 22050, dma_linear = (\<lambda>i. 0), dma_buff_size = 4096\<rparr>,
         sb_calls = []\<rparr>)) = 4000
   \<and> sb_maxfreq
       \<lparr>caps_16bits = False, caps_stereo = True, maxfreq_mono = 44100,
        maxfreq_stereo = 22050, dma_linear = (\<lambda>i. 0), dma_buff_size = 4096\<rparr> < (48000::u32)
   \<and> fst (snd (open_sb_output True True 48000
        \<lparr>buff_tail = 512,
         sb = \<lparr>caps_16bits = False, caps_stereo = True, maxfreq_mono = 44100,
               maxfreq_stereo = 22050, dma_linear = (\<lambda>i. 0), dma_buff_size = 4096\<rparr>,
         sb_calls = []\<rparr>)) = 22050"
  using open_sb_output_clamps_rate
    [of 3000 "\<lparr>buff_tail = 512,
         sb = \<lparr>caps_16bits = False, caps_stereo = True, maxfreq_mono = 44100,
               maxfreq_stereo = 22050, dma_linear = (\<lambda>i. 0), dma_buff_size = 4096\<rparr>,
         sb_calls = []\<rparr>"]
    open_sb_output_clamps_rate
    [of 48000 "\<lparr>buff_tail = 512,
         sb = \<lparr>caps_16bits = False, caps_stereo = True, maxfreq_mono = 44100,
               maxfreq_stereo = 22050, dma_linear = (\<lambda>i. 0), dma_buff_size = 4096\<rparr>,
         sb_calls = []\<rparr>"]
  by (simp add: sb_maxfreq_def)

section \<open>Legacy DMA backend: the copy routine\<close>

lemma sb_writes_append: "sb_writes (xs @ ys) i = (sb_writes xs i \<or> sb_writes ys i)"
  by (induction xs i rule: sb_writes.induct) auto

lemma sb_copied_append: "sb_copied (xs @ ys) = sb_copied xs + sb_copied ys"
  by (induction xs rule: sb_copied.induct) auto

lemma uint_sub_le: "uint (b::u32) \<le> uint a \<Longrightarrow> uint (a - b) = uint a - uint b"
  by (simp add: uint_sub_lem [THEN iffD1])

lemma uint_add_small: "uint (a::u32) + uint b < 2 ^ 32 \<Longrightarrow> uint (a + b) = uint a + uint b"
  using uint_add_lem [of a b] by simp

lemma uint_u32_bound: "uint (a::u32) < 2 ^ 32"
  using uint_bounded [of a] by simp

lemma write_sb_common_equal:
  assumes "P = dma_pos AND NOT 255" "buff_tail s = P"
  shows "write_sb_common (dma_size, dma_pos) data off siz s = (0, s)"
  using assms(2) unfolding write_sb_common_def fst_conv snd_conv assms(1) [symmetric] Let_def
  by simp

lemma write_sb_common_ahead:
  assumes "P = dma_pos AND NOT 255" "buff_tail s < P"
    and "c = (if P - buff_tail s > siz then siz else P - buff_tail s)"
  shows "write_sb_common (dma_size, dma_pos) data off siz s =
     (c, (sb_memcpy (uint (buff_tail s)) data off (uint c) s)
           \<lparr>buff_tail := (if buff_tail s + c \<ge> dma_size then 0 else buff_tail s + c)\<rparr>)"
proof -
  from assms(2) have "buff_tail s \<noteq> P" by auto
  with assms(2) show ?thesis
    unfolding write_sb_common_def fst_conv snd_conv assms(1) [symmetric] Let_def assms(3) [symmetric]
    by (simp add: sb_memcpy_def sb_log_def)
qed

lemma write_sb_common_behind:
  assumes "P = dma_pos AND NOT 255" "P < buff_tail s"
    and "c = (if dma_size - buff_tail s > siz then siz else dma_size - buff_tail s)"
    and "z = siz - c"
    and "p = (if P > z then z else P)"
  shows "write_sb_common (dma_size, dma_pos) data off siz s =
     (if z = 0
      then (c, (sb_memcpy (uint (buff_tail s)) data off (uint c) s)\<lparr>buff_tail := buff_tail s + c\<rparr>)
      else (c + p, (sb_memcpy 0 data (off + uint c) (uint p)
                     (sb_memcpy (uint (buff_tail s)) data off (uint c) s))\<lparr>buff_tail := p\<rparr>))"
proof -
  from assms(2) have "buff_tail s \<noteq> P" "\<not> buff_tail s < P"
    by auto
  then show ?thesis
    unfolding write_sb_common_def fst_conv snd_conv assms(1) [symmetric] Let_def
      assms(3) [symmetric] assms(4) [symmetric] assms(5) [symmetric]
    by (simp add: sb_memcpy_def sb_log_def)
qed

lemma write_sb_common_call:
  assumes T: "buff_tail s \<le> dma_size" and Q: "dma_pos < dma_size"
    and R: "write_sb_common (dma_size, dma_pos) data off siz s = (cnt, s')"
  shows "\<exists>new. sb_calls s' = sb_calls s @ new
           \<and> length new \<le> 2
           \<and> sb_copied new = uint cnt
           \<and> uint cnt \<le> sb_free_span dma_size (dma_pos AND NOT 255) (buff_tail s)
           \<and> uint cnt \<le> uint siz
           \<and> (\<forall>i. sb_writes new i \<longrightarrow>
                 0 \<le> i \<and> i < uint dma_size
                 \<and> \<not> sb_unread dma_size (dma_pos AND NOT 255) (buff_tail s) i)
           \<and> (\<forall>i. \<not> sb_writes new i \<longrightarrow> dma_linear (sb s') i = dma_linear (sb s) i)
           \<and> buff_tail s' \<le> dma_size"
proof -
  define P where "P = dma_pos AND NOT 255"
  have "P \<le> dma_pos" unfolding P_def by (rule word_and_le2)
  with Q have PD: "uint P < uint dma_size" by (simp add: word_le_def word_less_def)
  from T have TD: "uint (buff_tail s) \<le> uint dma_size" by (simp add: word_le_def)
  have D32: "uint dma_size < 2 ^ 32" by (rule uint_u32_bound)
  have T0: "0 \<le> uint (buff_tail s)" by simp
  consider (equal) "buff_tail s = P" | (ahead) "buff_tail s < P" | (behind) "P < buff_tail s"
    by (meson linorder_neqE)
  then show ?thesis
  proof cases
    case equal
    with R have "cnt = 0" "s' = s"
      by (simp_all add: write_sb_common_equal [OF P_def])
    with T TD show ?thesis
      unfolding P_def [symmetric]
      by (intro exI [of _ "[]"]) (simp add: sb_free_span_def word_less_def)
  next
    case ahead
    define c where "c = (if P - buff_tail s > siz then siz else P - buff_tail s)"
    from ahead have TP: "uint (buff_tail s) < uint P" by (simp add: word_less_def)
    then have sub: "uint (P - buff_tail s) = uint P - uint (buff_tail s)"
      by (simp add: uint_sub_le)
    have c1: "uint c \<le> uint P - uint (buff_tail s)" and c2: "uint c \<le> uint siz"
      using sub by (auto simp: c_def word_less_def)
    have add: "uint (buff_tail s + c) = uint (buff_tail s) + uint c"
      using c1 PD D32 by (intro uint_add_small) linarith
    have "(cnt, s') = (c, (sb_memcpy (uint (buff_tail s)) data off (uint c) s)
                 \<lparr>buff_tail := (if buff_tail s + c \<ge> dma_size then 0 else buff_tail s + c)\<rparr>)"
      unfolding R [symmetric] by (rule write_sb_common_ahead [OF P_def ahead c_def])
    then have cnt: "cnt = c"
      and s': "s' = (sb_memcpy (uint (buff_tail s)) data off (uint c) s)
                 \<lparr>buff_tail := (if buff_tail s + c \<ge> dma_size then 0 else buff_tail s + c)\<rparr>"
      by (simp_all only: prod.inject)
    show ?thesis
      unfolding P_def [symmetric]
      apply (rule exI [of _ "[SbMemcpy (uint (buff_tail s)) off (uint c)]"])
      using c1 c2 TP PD add ahead T0
      by (auto simp: s' cnt sb_memcpy_def sb_log_def memcpy_def sb_free_span_def
          sb_unread_def word_le_def word_less_def;
            insert uint_ge_0 [of P] uint_ge_0 [of "buff_tail s"], linarith)
  next
    case behind
    define c where "c = (if dma_size - buff_tail s > siz then siz else dma_size - buff_tail s)"
    define z where "z = siz - c"
    define p where "p = (if P > z then z else P)"
    from behind have PT: "uint P < uint (buff_tail s)" by (simp add: word_less_def)
    have sub: "uint (dma_size - buff_tail s) = uint dma_size - uint (buff_tail s)"
      using TD by (simp add: uint_sub_le)
    have c1: "uint c \<le> uint dma_size - uint (buff_tail s)" and c2: "uint c \<le> uint siz"
      using sub by (auto simp: c_def word_less_def)
    have z: "uint z = uint siz - uint c"
      unfolding z_def using c2 by (simp add: uint_sub_le)
    have p1: "uint p \<le> uint P" and p2: "uint p \<le> uint z"
      by (auto simp: p_def word_less_def)
    have add: "uint (buff_tail s + c) = uint (buff_tail s) + uint c"
      using c1 D32 by (intro uint_add_small) linarith
    have addp: "uint (c + p) = uint c + uint p"
      using c1 p1 PT PD D32 by (intro uint_add_small) linarith
    have nb: "\<not> buff_tail s < P" "buff_tail s \<noteq> P" using behind by auto
    have W: "write_sb_common (dma_size, dma_pos) data off siz s =
     (if z = 0
      then (c, (sb_memcpy (uint (buff_tail s)) data off (uint c) s)\<lparr>buff_tail := buff_tail s + c\<rparr>)
      else (c + p, (sb_memcpy 0 data (off + uint c) (uint p)
                     (sb_memcpy (uint (buff_tail s)) data off (uint c) s))\<lparr>buff_tail := p\<rparr>))"
      by (rule write_sb_common_behind [OF P_def behind c_def z_def p_def])
    show ?thesis
    proof (cases "z = 0")
      case True
      have "(cnt, s') = (c, (sb_memcpy (uint (buff_tail s)) data off (uint c) s)
                   \<lparr>buff_tail := buff_tail s + c\<rparr>)"
        unfolding R [symmetric] W using True by (simp only: if_True refl)
      then have cnt: "cnt = c"
        and s': "s' = (sb_memcpy (uint (buff_tail s)) data off (uint c) s)
                   \<lparr>buff_tail := buff_tail s + c\<rparr>"
        by (simp_all only: prod.inject)
      show ?thesis
        unfolding P_def [symmetric]
        apply (rule exI [of _ "[SbMemcpy (uint (buff_tail s)) off (uint c)]"])
        using c1 c2 PT PD add nb T0
        by (auto simp: s' cnt sb_memcpy_def sb_log_def memcpy_def sb_free_span_def
            sb_unread_def word_le_def word_less_def;
            insert uint_ge_0 [of P] uint_ge_0 [of "buff_tail s"], linarith)
    next
      case False
      have "(cnt, s') = (c + p, (sb_memcpy 0 data (off + uint c) (uint p)
                        (sb_memcpy (uint (buff_tail s)) data off (uint c) s))
                   \<lparr>buff_tail := p\<rparr>)"
        unfolding R [symmetric] W using False by (simp only: if_False refl)
      then have cnt: "cnt = c + p"
        and s': "s' = (sb_memcpy 0 data (off + uint c) (uint p)
                        (sb_memcpy (uint (buff_tail s)) data off (uint c) s))
                   \<lparr>buff_tail := p\<rparr>"
        by (simp_all only: prod.inject)
      show ?thesis
        unfolding P_def [symmetric]
        apply (rule exI [of _ "[SbMemcpy (uint (buff_tail s)) off (uint c),
                                 SbMemcpy 0 (off + uint c) (uint p)]"])
        using c1 c2 p1 p2 z PT PD add addp nb T0
        by (auto simp: s' cnt sb_memcpy_def sb_log_def memcpy_def sb_free_span_def
            sb_unread_def word_le_def word_less_def;
            insert uint_ge_0 [of P] uint_ge_0 [of "buff_tail s"], linarith)
    qed
  qed
qed

lemma sb_reach_tail: "sb_reach dma_size s \<Longrightarrow> buff_tail s \<le> dma_size"
proof (induction rule: sb_reach.induct)
  case (sb_reach_open s)
  then show ?case by simp
next
  case (sb_reach_write s dma_pos data off siz)
  obtain cnt s' where R: "write_sb_common (dma_size, dma_pos) data off siz s = (cnt, s')"
    by (cases "write_sb_common (dma_size, dma_pos) data off siz s")
  from write_sb_common_call [OF sb_reach_write.IH sb_reach_write.hyps(2) R]
  have "buff_tail s' \<le> dma_size" by blast
  with R show ?case by simp
qed

text \<open>
  C1. In every call of \<open>write_sb_common\<close> that the driver can make (any state reached
  from \<open>open\<close> by earlier calls, any hardware position inside the DMA buffer, any caller
  data and size), with the read position rounded down to a multiple of 256:
  the routine makes at most two copies; the bytes they copy are the returned count;
  the count exceeds neither the free span between \<open>buff_tail\<close> and the read position
  nor the requested size; every offset written lies inside the DMA buffer and outside
  the unread region \<open>[dma_pos, buff_tail)\<close> modulo \<open>dma_size\<close>; and no other byte of the
  DMA buffer changes.
\<close>

theorem write_sb_common_within_free_span:
  assumes "sb_reach dma_size s" and "dma_pos < dma_size"
    and "write_sb_common (dma_size, dma_pos) data off siz s = (cnt, s')"
  shows "\<exists>new. sb_calls s' = sb_calls s @ new
           \<and> length new \<le> 2
           \<and> sb_copied new = uint cnt
           \<and> uint cnt \<le> sb_free_span dma_size (dma_pos AND NOT 255) (buff_tail s)
           \<and> uint cnt \<le> uint siz
           \<and> (\<forall>i. sb_writes new i \<longrightarrow>
                 0 \<le> i \<and> i < uint dma_size
                 \<and> \<not> sb_unread dma_size (dma_pos AND NOT 255) (buff_tail s) i)
           \<and> (\<forall>i. \<not> sb_writes new i \<longrightarrow> dma_linear (sb s') i = dma_linear (sb s) i)"
proof -
  from write_sb_common_call [OF sb_reach_tail [OF assms(1)] assms(2) assms(3)]
  show ?thesis by blast
qed

theorem write_sb_common_within_free_span_witness:
  "sb_reach 4096 sb_sample1 \<and> (300::u32) < 4096
   \<and> sb_free_span 4096 (300 AND NOT 255) (buff_tail sb_sample1) = 3328
   \<and> uint (fst (write_sb_common (4096, 300) pcm_sample 0 5000 sb_sample1)) \<le> 3328"
proof -
  have r: "sb_reach 4096 sb_sample1"
    unfolding sb_sample1_def
    by (rule sb_reach_write [OF sb_reach_open]) (simp_all add: sb_sample_def)
  have q: "(300::u32) < 4096" by simp
  have t: "buff_tail sb_sample1 = 1024"
    by (simp add: sb_sample1_def write_sb_common_def sb_sample_def sb_memcpy_def sb_log_def Let_def)
  have f: "sb_free_span 4096 (300 AND NOT 255) (buff_tail sb_sample1) = 3328"
    by (simp add: t sb_free_span_def)
  from write_sb_common_within_free_span [OF r q surjective_pairing, of pcm_sample 0 5000]
  have "uint (fst (write_sb_common (4096, 300) pcm_sample 0 5000 sb_sample1))
          \<le> sb_free_span 4096 (300 AND NOT 255) (buff_tail sb_sample1)"
    by blast
  with r q f show ?thesis by simp
qed

section \<open>Legacy DMA backend: format conversion\<close>

lemma s16_at_upd: "2 * k \<noteq> p \<Longrightarrow> 2 * k + 1 \<noteq> p \<Longrightarrow> s16_at (m(p := v)) k = s16_at m k"
  by (simp add: s16_at_def)

lemma s16_at_bounds: "- 32768 \<le> s16_at m k" "s16_at m k < 32768"
  using sint_range_size [of "word_cat (m (2 * k + 1)) (m (2 * k)) :: 16 word"]
  by (simp_all add: s16_at_def word_size)

lemma conv_stereo8_spec:
  "0 \<le> p \<Longrightarrow>
   conv_stereo8 i p m k =
     (if p \<le> k \<and> k \<le> p + i then to_u8 (drop_bit 8 (s16_at m k) + 128) else m k)"
proof (induction i p m rule: conv_stereo8.induct)
  case (1 i p m)
  show ?case
  proof (cases "i \<ge> 0")
    case True
    let ?m' = "m(p := to_u8 (drop_bit 8 (s16_at m p) + 128))"
    have step: "conv_stereo8 i p m k = conv_stereo8 (i - 1) (p + 1) ?m' k"
      using True by (subst conv_stereo8.simps) simp
    have IH: "conv_stereo8 (i - 1) (p + 1) ?m' k =
        (if p + 1 \<le> k \<and> k \<le> p + 1 + (i - 1)
         then to_u8 (drop_bit 8 (s16_at ?m' k) + 128) else ?m' k)"
      by (rule "1.IH") (use True "1.prems" in simp_all)
    have keep: "p + 1 \<le> k \<Longrightarrow> s16_at ?m' k = s16_at m k"
      using "1.prems" by (intro s16_at_upd) linarith+
    show ?thesis
      unfolding step IH using keep True by auto
  next
    case False
    then show ?thesis by (subst conv_stereo8.simps) auto
  qed
qed

lemma conv_mono8_spec:
  "0 \<le> p \<Longrightarrow>
   conv_mono8 i p m k =
     (if p \<le> k \<and> k \<le> p + i
      then to_u8 (drop_bit 9 (s16_at m (2 * k) + s16_at m (2 * k + 1)) + 128) else m k)"
proof (induction i p m rule: conv_mono8.induct)
  case (1 i p m)
  show ?case
  proof (cases "i \<ge> 0")
    case True
    let ?m' = "m(p := to_u8 (drop_bit 9 (s16_at m (2 * p) + s16_at m (2 * p + 1)) + 128))"
    have step: "conv_mono8 i p m k = conv_mono8 (i - 1) (p + 1) ?m' k"
      using True by (subst conv_mono8.simps) simp
    have IH: "conv_mono8 (i - 1) (p + 1) ?m' k =
        (if p + 1 \<le> k \<and> k \<le> p + 1 + (i - 1)
         then to_u8 (drop_bit 9 (s16_at ?m' (2 * k) + s16_at ?m' (2 * k + 1)) + 128)
         else ?m' k)"
      by (rule "1.IH") (use True "1.prems" in simp_all)
    have keep: "p + 1 \<le> k \<Longrightarrow> s16_at ?m' (2 * k) = s16_at m (2 * k)
        \<and> s16_at ?m' (2 * k + 1) = s16_at m (2 * k + 1)"
      using "1.prems" by (intro conjI s16_at_upd) presburger+
    show ?thesis
      unfolding step IH using keep True by auto
  next
    case False
    then show ?thesis by (subst conv_mono8.simps) auto
  qed
qed

lemma c_div_nonneg: "0 \<le> a \<Longrightarrow> 0 < b \<Longrightarrow> c_div a b = a div b"
  by (cases "a = 0") (simp_all add: c_div_def)

lemma uint_to_u8: "0 \<le> x \<Longrightarrow> x < 256 \<Longrightarrow> uint (to_u8 x) = x"
  by (simp add: to_u8_def uint_word_of_int take_bit_eq_mod)

lemma stereo_byte_range:
  "0 \<le> drop_bit 8 (s16_at m k) + 128" "drop_bit 8 (s16_at m k) + 128 < 256"
  using s16_at_bounds [of m k] by (simp_all add: drop_bit_eq_div)

lemma mono_byte_range:
  "0 \<le> drop_bit 9 (s16_at m j + s16_at m k) + 128"
  "drop_bit 9 (s16_at m j + s16_at m k) + 128 < 256"
  using s16_at_bounds [of m k] s16_at_bounds [of m j] by (simp_all add: drop_bit_eq_div)

text \<open>
  The loops run from \<open>i = siz\<close> down to \<open>i = 0\<close> inclusive, one pass more than there are
  samples: the last pass reads the sample that follows the input and stores its
  conversion at offset \<open>siz\<close> (the new, reduced size), just behind the converted output.
\<close>

lemma sb_convert_last_pass:
  assumes "0 \<le> siz" "\<not> caps_16bits h" "caps_stereo h"
  shows "fst (sb_convert h data siz) (siz div 2)
           = to_u8 (drop_bit 8 (s16_at data (siz div 2)) + 128)"
  using assms by (simp add: sb_convert_def Let_def c_div_nonneg conv_stereo8_spec)

text \<open>
  C3. For an input of \<open>siz \<ge> 0\<close> bytes, the conversion that \<open>write_sb_output\<close> performs
  in place before delivering the data is exact. In 16-bit mode data and size are
  unchanged. In 8-bit stereo mode the size becomes \<open>siz div 2\<close> and output byte \<open>k\<close>, for
  each of the \<open>siz div 2\<close> samples, is the unsigned value \<open>(s >> 8) + 128\<close> of sample \<open>k\<close>.
  In 8-bit mono mode the size becomes \<open>siz div 4\<close> and output byte \<open>k\<close> is
  \<open>((left + right) >> 9) + 128\<close> of the stereo pair \<open>k\<close>. The delivery loop is then run on
  the converted memory with the reduced size.
\<close>

theorem write_sb_output_conversion_exact:
  assumes "0 \<le> siz"
  shows "write_sb_output qs data siz s =
           (fst (sb_deliver qs (fst (sb_convert (sb s) data siz)) 0
                   (snd (sb_convert (sb s) data siz)) s),
            fst (sb_convert (sb s) data siz),
            snd (sb_deliver qs (fst (sb_convert (sb s) data siz)) 0
                   (snd (sb_convert (sb s) data siz)) s))
         \<and> (caps_16bits (sb s) \<longrightarrow> sb_convert (sb s) data siz = (data, siz))
         \<and> (\<not> caps_16bits (sb s) \<and> caps_stereo (sb s) \<longrightarrow>
              snd (sb_convert (sb s) data siz) = siz div 2
              \<and> (\<forall>k. 0 \<le> k \<and> k < siz div 2 \<longrightarrow>
                    uint (fst (sb_convert (sb s) data siz) k)
                      = drop_bit 8 (s16_at data k) + 128))
         \<and> (\<not> caps_16bits (sb s) \<and> \<not> caps_stereo (sb s) \<longrightarrow>
              snd (sb_convert (sb s) data siz) = siz div 4
              \<and> (\<forall>k. 0 \<le> k \<and> k < siz div 4 \<longrightarrow>
                    uint (fst (sb_convert (sb s) data siz) k)
                      = drop_bit 9 (s16_at data (2 * k) + s16_at data (2 * k + 1)) + 128))"
proof -
  have A: "write_sb_output qs data siz s =
           (fst (sb_deliver qs (fst (sb_convert (sb s) data siz)) 0
                   (snd (sb_convert (sb s) data siz)) s),
            fst (sb_convert (sb s) data siz),
            snd (sb_deliver qs (fst (sb_convert (sb s) data siz)) 0
                   (snd (sb_convert (sb s) data siz)) s))"
    by (simp add: write_sb_output_def split_beta)
  have B: "caps_16bits (sb s) \<longrightarrow> sb_convert (sb s) data siz = (data, siz)"
    by (simp add: sb_convert_def)
  have C: "\<not> caps_16bits (sb s) \<and> caps_stereo (sb s) \<longrightarrow>
              snd (sb_convert (sb s) data siz) = siz div 2
              \<and> (\<forall>k. 0 \<le> k \<and> k < siz div 2 \<longrightarrow>
                    uint (fst (sb_convert (sb s) data siz) k)
                      = drop_bit 8 (s16_at data k) + 128)"
    using assms
    by (simp add: sb_convert_def Let_def c_div_nonneg conv_stereo8_spec
        uint_to_u8 [OF stereo_byte_range])
  have D: "\<not> caps_16bits (sb s) \<and> \<not> caps_stereo (sb s) \<longrightarrow>
              snd (sb_convert (sb s) data siz) = siz div 4
              \<and> (\<forall>k. 0 \<le> k \<and> k < siz div 4 \<longrightarrow>
                    uint (fst (sb_convert (sb s) data siz) k)
                      = drop_bit 9 (s16_at data (2 * k) + s16_at data (2 * k + 1)) + 128)"
    using assms
    by (simp add: sb_convert_def Let_def c_div_nonneg conv_mono8_spec
        uint_to_u8 [OF mono_byte_range])
  from A B C D show ?thesis by blast
qed

theorem write_sb_output_conversion_exact_witness:
  "(0::int) \<le> 8 \<and> \<not> caps_16bits (sb sb_sample) \<and> caps_stereo (sb sb_sample)
   \<and> (0::int) \<le> 1 \<and> (1::int) < 8 div 2
   \<and> snd (sb_convert (sb sb_sample) pcm_sample 8) = 4
   \<and> uint (fst (sb_convert (sb sb_sample) pcm_sample 8) 1) = 124"
proof -
  have h: "(0::int) \<le> 8" by simp
  have m: "\<not> caps_16bits (sb sb_sample) \<and> caps_stereo (sb sb_sample)"
    by (simp add: sb_sample_def)
  have v: "drop_bit 8 (s16_at pcm_sample 1) + 128 = 124"
    by (simp add: s16_at_def pcm_sample_def word_cat_eq drop_bit_eq_div)
  from write_sb_output_conversion_exact [OF h, of "[]" pcm_sample sb_sample] m
  have "snd (sb_convert (sb sb_sample) pcm_sample 8) = 8 div 2"
    and "\<forall>k. 0 \<le> k \<and> k < 8 div 2 \<longrightarrow>
           uint (fst (sb_convert (sb sb_sample) pcm_sample 8) k)
             = drop_bit 8 (s16_at pcm_sample k) + 128"
    by blast+
  with m v show ?thesis by simp
qed

section \<open>OS-Mixer backend: buffer size\<close>

lemma test_bit_iff: "k < 32 \<Longrightarrow> ((b::u32) AND push_bit k 1 \<noteq> 0) = odd (uint b div 2 ^ k)"
proof -
  assume k: "k < 32"
  have "(b AND push_bit k 1 \<noteq> 0) = bit b k"
    by (simp add: push_bit_of_1 and_exp_eq_0_iff_not_bit)
  also have "\<dots> = bit (uint b) k" using k by (simp add: bit_uint_iff)
  also have "\<dots> = odd (uint b div 2 ^ k)" by (simp add: bit_iff_odd)
  finally show ?thesis .
qed

lemma dart_find_bit_15:
  "dart_find_bit b 15 =
     (if odd (uint b div 2 ^ 15) then 15
      else if odd (uint b div 2 ^ 14) then 14
      else if odd (uint b div 2 ^ 13) then 13
      else if odd (uint b div 2 ^ 12) then 12 else 11)"
proof -
  have n: "nat 15 = 15" "nat 14 = 14" "nat 13 = 13" "nat 12 = 12" by simp_all
  show ?thesis
    apply (subst dart_find_bit.simps)
    apply (subst dart_find_bit.simps)
    apply (subst dart_find_bit.simps)
    apply (subst dart_find_bit.simps)
    apply (subst dart_find_bit.simps)
    apply (simp add: test_bit_iff del: push_bit_of_1)
    done
qed

lemma dart_bytes: "uint (push_bit 1 (push_bit 1 (drop_bit 2 (rate::u32)))) = 4 * (uint rate div 4)"
proof -
  have w: "push_bit 1 (push_bit 1 (drop_bit 2 rate)) = 4 * (rate div 4)"
    by (simp add: push_bit_eq_mult drop_bit_eq_div)
  have d: "uint (rate div 4) = uint rate div 4"
    by (simp add: uint_div)
  have "uint rate div 4 < 2 ^ 30"
    using uint_bounded [of rate] by simp
  moreover have "0 \<le> uint rate div 4" by (simp add: pos_imp_zdiv_nonneg_iff)
  ultimately have "(4 * (uint rate div 4)) mod 2 ^ 32 = 4 * (uint rate div 4)"
    by (intro mod_pos_pos_trivial) simp_all
  then show ?thesis
    unfolding w by (simp add: uint_word_ariths d)
qed

lemma div_eq_1:
  fixes a B :: int
  assumes "a \<le> B" "B < 2 * a" "0 < a"
  shows "B div a = 1"
proof -
  have "B div a = (a + (B - a)) div a" by simp
  also have "\<dots> = (B - a) div a + 1"
    using assms(3) by (subst div_add_self1) simp_all
  also have "(B - a) div a = 0"
    using assms by (intro div_pos_pos_trivial) simp_all
  finally show ?thesis by simp
qed

lemma pow2_floor:
  fixes B :: int
  assumes "2048 \<le> B" "B < 65536"
  shows "(if odd (B div 2 ^ 15) then 32768
      else if odd (B div 2 ^ 14) then 16384
      else if odd (B div 2 ^ 13) then 8192
      else if odd (B div 2 ^ 12) then 4096 else (2048::int)) \<le> B
   \<and> B < 2 * (if odd (B div 2 ^ 15) then 32768
      else if odd (B div 2 ^ 14) then 16384
      else if odd (B div 2 ^ 13) then 8192
      else if odd (B div 2 ^ 12) then 4096 else (2048::int))"
proof -
  consider (a) "32768 \<le> B" | (b) "16384 \<le> B" "B < 32768" | (c) "8192 \<le> B" "B < 16384"
    | (d) "4096 \<le> B" "B < 8192" | (e) "B < 4096"
    by linarith
  then show ?thesis
  proof cases
    case a
    then have "B div 2 ^ 15 = 1" using assms by (intro div_eq_1) simp_all
    with a assms show ?thesis by simp
  next
    case b
    then have "B div 2 ^ 15 = 0" "B div 2 ^ 14 = 1"
      using assms by (simp_all add: div_pos_pos_trivial div_eq_1)
    with b show ?thesis by simp
  next
    case c
    then have "B div 2 ^ 15 = 0" "B div 2 ^ 14 = 0" "B div 2 ^ 13 = 1"
      using assms by (simp_all add: div_pos_pos_trivial div_eq_1)
    with c show ?thesis by simp
  next
    case d
    then have "B div 2 ^ 15 = 0" "B div 2 ^ 14 = 0" "B div 2 ^ 13 = 0" "B div 2 ^ 12 = 1"
      using assms by (simp_all add: div_pos_pos_trivial div_eq_1)
    with d show ?thesis by simp
  next
    case e
    then have "B div 2 ^ 15 = 0" "B div 2 ^ 14 = 0" "B div 2 ^ 13 = 0" "B div 2 ^ 12 = 0"
      using assms by (simp_all add: div_pos_pos_trivial)
    with e assms show ?thesis by simp
  qed
qed

lemma dart_buffer_size_cases:
  "dart_buffer_size rate =
     (if odd (4 * (uint rate div 4) div 2 ^ 15) then 32768
      else if odd (4 * (uint rate div 4) div 2 ^ 14) then 16384
      else if odd (4 * (uint rate div 4) div 2 ^ 13) then 8192
      else if odd (4 * (uint rate div 4) div 2 ^ 12) then 4096 else 2048)"
  unfolding dart_buffer_size_def Let_def dart_find_bit_15 dart_bytes
  by simp

lemma round_down_pow2_unique: "2 ^ k \<le> n \<Longrightarrow> n < 2 ^ Suc k \<Longrightarrow> round_down_pow2 n = 2 ^ k"
proof (induction k arbitrary: n)
  case 0
  then have "n = 1" by simp
  then show ?case by (simp add: round_down_pow2.simps)
next
  case (Suc k)
  from Suc.prems have "2 \<le> n"
    by (metis One_nat_def Suc_1 Suc_leI le_trans one_le_numeral one_le_power power_Suc0_right power_increasing zero_less_Suc)
  have "2 ^ k \<le> n div 2" using Suc.prems by simp
  moreover have "n div 2 < 2 ^ Suc k" using Suc.prems by simp
  ultimately have "round_down_pow2 (n div 2) = 2 ^ k" by (rule Suc.IH)
  with \<open>2 \<le> n\<close> show ?case by (subst round_down_pow2.simps) simp
qed

lemma dart_buffer_size_values:
  "dart_buffer_size rate \<in> {2048, 4096, 8192, 16384, 32768}"
  by (simp add: dart_buffer_size_cases)

lemma dart_buffer_size_bounds:
  assumes "2048 \<le> rate" "rate < 65536"
  shows "uint (dart_buffer_size rate) \<le> 4 * (uint rate div 4)"
    and "4 * (uint rate div 4) < 2 * uint (dart_buffer_size rate)"
proof -
  define B where "B = 4 * (uint rate div 4)"
  from assms have r: "2048 \<le> uint rate" "uint rate < 65536"
    by (simp_all add: word_le_def word_less_def)
  then have B: "2048 \<le> B" "B < 65536" unfolding B_def by presburger+
  have u: "uint (dart_buffer_size rate) =
      (if odd (B div 2 ^ 15) then 32768
      else if odd (B div 2 ^ 14) then 16384
      else if odd (B div 2 ^ 13) then 8192
      else if odd (B div 2 ^ 12) then 4096 else (2048::int))"
    unfolding dart_buffer_size_cases B_def by simp
  from pow2_floor [OF B]
  show "uint (dart_buffer_size rate) \<le> 4 * (uint rate div 4)"
    and "4 * (uint rate div 4) < 2 * uint (dart_buffer_size rate)"
    unfolding u B_def [symmetric] by blast+
qed

lemma dart_buffer_size_spec:
  assumes "2048 \<le> rate" "rate < 65536"
  shows "unat (dart_buffer_size rate) = spec_buffer_size (unat rate)"
proof -
  define n where "n = unat rate div 4 * 4"
  have "uint rate = int (unat rate)" by simp
  then have B: "4 * (uint rate div 4) = int n"
    unfolding n_def by (simp add: zdiv_int)
  have v: "uint (dart_buffer_size rate) = int (unat (dart_buffer_size rate))" by simp
  from dart_buffer_size_bounds [OF assms]
  have lo: "unat (dart_buffer_size rate) \<le> n" and hi: "n < 2 * unat (dart_buffer_size rate)"
    unfolding B v by linarith+
  from dart_buffer_size_values [of rate]
  consider "dart_buffer_size rate = 2048" | "dart_buffer_size rate = 4096"
    | "dart_buffer_size rate = 8192" | "dart_buffer_size rate = 16384"
    | "dart_buffer_size rate = 32768"
    by auto
  then have "round_down_pow2 n = unat (dart_buffer_size rate)"
  proof cases
    case 1
    with lo hi show ?thesis using round_down_pow2_unique [of 11 n] by simp
  next
    case 2
    with lo hi show ?thesis using round_down_pow2_unique [of 12 n] by simp
  next
    case 3
    with lo hi show ?thesis using round_down_pow2_unique [of 13 n] by simp
  next
    case 4
    with lo hi show ?thesis using round_down_pow2_unique [of 14 n] by simp
  next
    case 5
    with lo hi show ?thesis using round_down_pow2_unique [of 15 n] by simp
  qed
  moreover have "unat (dart_buffer_size rate) \<le> 65536"
    using dart_buffer_size_values [of rate] by auto
  ultimately show ?thesis
    by (simp add: spec_buffer_size_def n_def)
qed

text \<open>
  C5, as the code has it. For every requested rate the per-slot size is a power of two
  from 2048 to 32768: \<open>2 ^ i\<close> for the highest of the bits 15 to 12 set in the byte
  count \<open>4 * (rate div 4)\<close>, and 2048 when none of them is set; the test against 65536
  never applies. For rates from 2048 to 65535 that is the byte count of a quarter
  second of stereo 16-bit audio rounded down to a power of two, the size the
  specification describes.
\<close>

theorem dart_buffer_size_rounds:
  "dart_buffer_size rate \<in> {2048, 4096, 8192, 16384, 32768}
   \<and> dart_buffer_size rate =
       (if odd (4 * (uint rate div 4) div 2 ^ 15) then 32768
        else if odd (4 * (uint rate div 4) div 2 ^ 14) then 16384
        else if odd (4 * (uint rate div 4) div 2 ^ 13) then 8192
        else if odd (4 * (uint rate div 4) div 2 ^ 12) then 4096 else 2048)
   \<and> (2048 \<le> rate \<and> rate < 65536 \<longrightarrow>
        unat (dart_buffer_size rate) = spec_buffer_size (unat rate)
        \<and> uint (dart_buffer_size rate) \<le> 4 * (uint rate div 4)
        \<and> 4 * (uint rate div 4) < 2 * uint (dart_buffer_size rate))"
  using dart_buffer_size_values [of rate] dart_buffer_size_cases [of rate]
    dart_buffer_size_bounds [of rate] dart_buffer_size_spec [of rate]
  by blast

theorem dart_buffer_size_rounds_witness:
  "(2048::u32) \<le> 44100 \<and> (44100::u32) < 65536
   \<and> unat (dart_buffer_size 44100) = spec_buffer_size 44100
   \<and> dart_buffer_size 44100 = 32768"
proof -
  have h: "(2048::u32) \<le> 44100 \<and> (44100::u32) < 65536" by simp
  have v: "dart_buffer_size 44100 = 32768"
    by (simp add: dart_buffer_size_def dart_find_bit.simps Let_def)
  from dart_buffer_size_rounds [of 44100] h
  have "unat (dart_buffer_size 44100) = spec_buffer_size (unat (44100::u32))" by blast
  with h v show ?thesis by simp
qed


text \<open>
  C5, as stated, fails outside that range: at 96000 Hz the byte count is 96000, which
  rounds down to 65536, but only the bits 15 to 12 are examined and the size is 16384.
\<close>

theorem dart_buffer_size_counterexample:
  "unat (dart_buffer_size 96000) = 16384 \<and> spec_buffer_size 96000 = 65536"
proof -
  have "round_down_pow2 96000 = 65536"
    by (rule round_down_pow2_unique [of 16, simplified]) simp_all
  then show ?thesis
    by (simp add: spec_buffer_size_def dart_buffer_size_def dart_find_bit.simps Let_def)
qed

section \<open>OS-Mixer backend: write\<close>

lemma dart_copies_append: "dart_copies (xs @ ys) = dart_copies xs @ dart_copies ys"
  by (induction xs rule: dart_copies.induct) auto

lemma dart_complete_frame:
  "dart_calls (dart_complete e s) = dart_calls s"
  "nxt (dart_complete e s) = nxt s"
  "idx (dart_complete e s) = idx s"
  "bsize (dart_complete e s) = bsize s"
  "dart_mem (dart_complete e s) = dart_mem s"
  "pBuffer (dart_complete e s) = pBuffer s"
  "ulBufferLength (dart_complete e s) = ulBufferLength s"
  "DeviceID (dart_complete e s) = DeviceID s"
  by (simp_all add: dart_complete_def OS2_Dart_UpdateBuffers_def)

lemma fold_dart_complete_frame:
  "dart_calls (fold dart_complete es s) = dart_calls s"
  "nxt (fold dart_complete es s) = nxt s"
  "idx (fold dart_complete es s) = idx s"
  "bsize (fold dart_complete es s) = bsize s"
  "dart_mem (fold dart_complete es s) = dart_mem s"
  "pBuffer (fold dart_complete es s) = pBuffer s"
  "ulBufferLength (fold dart_complete es s) = ulBufferLength s"
  by (induction es arbitrary: s; simp add: dart_complete_frame)+

lemma dart_after_frame:
  "dart_calls (dart_after sched s) = dart_calls s"
  "nxt (dart_after sched s) = nxt s"
  "idx (dart_after sched s) = idx s"
  "bsize (dart_after sched s) = bsize s"
  "dart_mem (dart_after sched s) = dart_mem s"
  "pBuffer (dart_after sched s) = pBuffer s"
  "ulBufferLength (dart_after sched s) = ulBufferLength s"
  by (simp_all add: dart_after_def fold_dart_complete_frame)

lemma dart_after_Nil [simp]: "dart_after [] s = s"
  by (simp add: dart_after_def)

lemma dart_after_Cons: "dart_after (evs # sched) s = dart_after sched (fold dart_complete evs s)"
  by (simp add: dart_after_def)

lemma dart_wait_Some:
  "dart_wait sched s = Some w \<Longrightarrow>
   \<exists>k\<le>length sched. w = dart_after (take k sched) s \<and> ready w \<noteq> 0
      \<and> (\<forall>j<k. ready (dart_after (take j sched) s) = 0)"
proof (induction sched arbitrary: s)
  case Nil
  then show ?case by (auto split: if_splits)
next
  case (Cons evs sched)
  show ?case
  proof (cases "ready s \<noteq> 0")
    case True
    with Cons.prems have "w = s" by simp
    with True show ?thesis by (intro exI [of _ 0]) simp
  next
    case False
    with Cons.prems have "dart_wait sched (fold dart_complete evs s) = Some w" by simp
    from Cons.IH [OF this] obtain k where k: "k \<le> length sched"
      "w = dart_after (take k sched) (fold dart_complete evs s)" "ready w \<noteq> 0"
      "\<forall>j<k. ready (dart_after (take j sched) (fold dart_complete evs s)) = 0"
      by blast
    have "\<forall>j<Suc k. ready (dart_after (take j (evs # sched)) s) = 0"
    proof (intro allI impI)
      fix j assume "j < Suc k"
      then show "ready (dart_after (take j (evs # sched)) s) = 0"
        using False k(4) by (cases j) (simp_all add: dart_after_Cons)
    qed
    with k show ?thesis
      by (intro exI [of _ "Suc k"]) (simp add: dart_after_Cons)
  qed
qed

lemma dart_wait_None:
  "dart_wait sched s = None \<longleftrightarrow> (\<forall>j\<le>length sched. ready (dart_after (take j sched) s) = 0)"
proof (induction sched arbitrary: s)
  case Nil
  then show ?case by simp
next
  case (Cons evs sched)
  show ?case
  proof (cases "ready s \<noteq> 0")
    case True
    then have "\<not> (\<forall>j\<le>length (evs # sched). ready (dart_after (take j (evs # sched)) s) = 0)"
      by (auto intro: exI [of _ 0])
    with True show ?thesis by simp
  next
    case False
    have "(\<forall>j\<le>length (evs # sched). ready (dart_after (take j (evs # sched)) s) = 0)
      \<longleftrightarrow> (\<forall>j\<le>length sched. ready (dart_after (take j sched) (fold dart_complete evs s)) = 0)"
      (is "?L \<longleftrightarrow> ?R")
    proof
      assume L: ?L
      show ?R
      proof (intro allI impI)
        fix j assume "j \<le> length sched"
        then have "Suc j \<le> length (evs # sched)" by simp
        with L have "ready (dart_after (take (Suc j) (evs # sched)) s) = 0" by blast
        then show "ready (dart_after (take j sched) (fold dart_complete evs s)) = 0"
          by (simp add: dart_after_Cons)
      qed
    next
      assume R: ?R
      show ?L
      proof (intro allI impI)
        fix j assume "j \<le> length (evs # sched)"
        then show "ready (dart_after (take j (evs # sched)) s) = 0"
          using False R by (cases j) (simp_all add: dart_after_Cons)
      qed
    qed
    with False Cons.IH [of "fold dart_complete evs s"] show ?thesis by simp
  qed
qed

lemma uint_size_t: "0 \<le> n \<Longrightarrow> n < 2 ^ 31 \<Longrightarrow> uint (word_of_int n :: u32) = n"
  by (simp add: uint_word_of_int take_bit_eq_mod)

lemma dart_overflows_iff:
  assumes "0 \<le> idx s + n" "idx s + n < 2 ^ 31"
  shows "dart_overflows n s \<longleftrightarrow> uint (bsize s) < idx s + n"
proof -
  have "uint (word_of_int (idx s + n) :: u32) = idx s + n"
    using assms by (rule uint_size_t)
  then show ?thesis
    unfolding dart_overflows_def word_less_def by (simp only:)
qed

lemma dart_rotate_result:
  assumes n: "0 \<le> n" "n < 2 ^ 31"
    and s'_def: "s' = dart_copy d n (dart_advance (dart_dec (dart_submit w)))"
  shows "dart_calls s' = dart_calls w @ [PmixWrite (nxt w) 1, DartMemcpy (nxt s') 0 n]"
    and "ulBufferLength s' (nxt w) = word_of_int (idx w)"
    and "submitted s' = submitted w + 1"
    and "ready s' = ready w - 1"
    and "nxt s' = (if nxt w + 1 = BUFFERCOUNT then 0 else nxt w + 1)"
    and "idx s' = n"
    and "bsize s' = bsize w"
    and "pBuffer s' = pBuffer w"
    and "dart_mem s' = memcpy (dart_mem w) (pBuffer w (nxt s')) d 0 n"
  unfolding s'_def using n
  by (simp_all add: dart_copy_def dart_advance_def dart_dec_def dart_submit_def pmixWrite_def
      dart_log_def Let_def uint_size_t)

lemma dart_copy_result:
  assumes n: "0 \<le> n" "n < 2 ^ 31"
    and s'_def: "s' = dart_copy d n s"
  shows "dart_calls s' = dart_calls s @ [DartMemcpy (nxt s) (idx s) n]"
    and "nxt s' = nxt s"
    and "idx s' = idx s + n"
    and "bsize s' = bsize s"
    and "ready s' = ready s"
    and "submitted s' = submitted s"
    and "pBuffer s' = pBuffer s"
    and "dart_mem s' = memcpy (dart_mem s) (pBuffer s (nxt s) + idx s) d 0 n"
  unfolding s'_def using n
  by (simp_all add: dart_copy_def dart_log_def Let_def uint_size_t)

lemma memcpy_inside: "0 \<le> i \<Longrightarrow> i < n \<Longrightarrow> memcpy m a d 0 n (a + i) = d i"
  by (simp add: memcpy_def)

lemma memcpy_outside: "x < a \<or> a + n \<le> x \<Longrightarrow> memcpy m a d 0 n x = m x"
  by (auto simp: memcpy_def)

lemma next_slot_mod:
  "0 \<le> x \<Longrightarrow> x < BUFFERCOUNT \<Longrightarrow> (if x + 1 = BUFFERCOUNT then 0 else x + 1) = (x + 1) mod BUFFERCOUNT"
  by (auto simp: BUFFERCOUNT_def)

text \<open>
  C4. When appending \<open>output_size\<close> bytes at the fill offset would exceed \<open>bsize\<close>,
  \<open>write_dart_output\<close> first waits: it reads the ready count at entry and after each
  sleep, and goes on at the first reading that is nonzero; when no reading is, the call
  does not return. It then submits the current buffer, its length set to the fill
  offset, decrements the ready count, advances the buffer index modulo the buffer
  count 4, resets the fill offset to zero and copies the caller's data to the start of
  the new current slot. Nothing of the data has been copied before the rotation, so
  what is copied then is all of it.
\<close>

theorem write_dart_output_rotates:
  assumes ov: "dart_overflows output_size s"
    and n: "0 \<le> output_size" "output_size < 2 ^ 31"
    and x: "0 \<le> nxt s" "nxt s < BUFFERCOUNT"
  shows "(write_dart_output sched output_data output_size s = None
            \<longleftrightarrow> (\<forall>j\<le>length sched. ready (dart_after (take j sched) s) = 0))
       \<and> (\<forall>r s'. write_dart_output sched output_data output_size s = Some (r, s') \<longrightarrow>
             r = 0
             \<and> (\<exists>k\<le>length sched.
                   (\<forall>j<k. ready (dart_after (take j sched) s) = 0)
                   \<and> ready (dart_after (take k sched) s) \<noteq> 0
                   \<and> dart_calls s' = dart_calls s @
                        [PmixWrite (nxt s) 1,
                         DartMemcpy ((nxt s + 1) mod BUFFERCOUNT) 0 output_size]
                   \<and> ulBufferLength s' (nxt s) = word_of_int (idx s)
                   \<and> submitted s' = submitted (dart_after (take k sched) s) + 1
                   \<and> ready s' = ready (dart_after (take k sched) s) - 1
                   \<and> nxt s' = (nxt s + 1) mod BUFFERCOUNT
                   \<and> idx s' = output_size
                   \<and> (\<forall>i. 0 \<le> i \<and> i < output_size \<longrightarrow> buffers s' (nxt s') i = output_data i)))"
proof (intro conjI allI impI)
  show "write_dart_output sched output_data output_size s = None
            \<longleftrightarrow> (\<forall>j\<le>length sched. ready (dart_after (take j sched) s) = 0)"
    using ov by (simp add: write_dart_output_def dart_wait_None [symmetric] split: option.splits)
next
  fix r s'
  assume R: "write_dart_output sched output_data output_size s = Some (r, s')"
  with ov obtain w where w: "dart_wait sched s = Some w"
    and s': "s' = dart_copy output_data output_size (dart_advance (dart_dec (dart_submit w)))"
    and r: "r = 0"
    by (auto simp: write_dart_output_def split: option.splits)
  show "r = 0" by (rule r)
  from dart_wait_Some [OF w] obtain k where k: "k \<le> length sched"
    "w = dart_after (take k sched) s" "ready w \<noteq> 0"
    "\<forall>j<k. ready (dart_after (take j sched) s) = 0"
    by blast
  have f: "nxt w = nxt s" "idx w = idx s" "dart_calls w = dart_calls s"
    unfolding k(2) by (simp_all add: dart_after_frame)
  from x f have xw: "0 \<le> nxt w" "nxt w < BUFFERCOUNT" by simp_all
  note res = dart_rotate_result [OF n s']
  have bf: "\<forall>i. 0 \<le> i \<and> i < output_size \<longrightarrow> buffers s' (nxt s') i = output_data i"
    by (simp add: buffers_def res(8) res(9) memcpy_inside)
  note nx = res(5) [unfolded next_slot_mod [OF xw]]
  show "\<exists>k\<le>length sched.
                   (\<forall>j<k. ready (dart_after (take j sched) s) = 0)
                   \<and> ready (dart_after (take k sched) s) \<noteq> 0
                   \<and> dart_calls s' = dart_calls s @
                        [PmixWrite (nxt s) 1,
                         DartMemcpy ((nxt s + 1) mod BUFFERCOUNT) 0 output_size]
                   \<and> ulBufferLength s' (nxt s) = word_of_int (idx s)
                   \<and> submitted s' = submitted (dart_after (take k sched) s) + 1
                   \<and> ready s' = ready (dart_after (take k sched) s) - 1
                   \<and> nxt s' = (nxt s + 1) mod BUFFERCOUNT
                   \<and> idx s' = output_size
                   \<and> (\<forall>i. 0 \<le> i \<and> i < output_size \<longrightarrow> buffers s' (nxt s') i = output_data i)"
    apply (rule exI [of _ k])
    using k(1) k(3) k(4) res(1-4) res(6) nx bf unfolding f k(2) [symmetric]
    apply simp
    done
qed

theorem write_dart_output_rotates_witness:
  "dart_overflows 16 dart_full \<and> (0::int) \<le> 16 \<and> (16::int) < 2 ^ 31
   \<and> 0 \<le> nxt dart_full \<and> nxt dart_full < BUFFERCOUNT
   \<and> write_dart_output [[], [(0, MIX_WRITE_COMPLETE)]] pcm_sample 16 dart_full \<noteq> None
   \<and> write_dart_output [[]] pcm_sample 16 dart_full = None"
proof -
  have f: "bsize dart_full = 32768" "idx dart_full = 32760" "nxt dart_full = 2"
    "ready dart_full = 0"
    by (simp_all add: dart_full_def dart_opened_def open_dart_output_def dart_env_ok_def Let_def
      dart_statics_def dart_log_def dart_memset_def pmixWrite_def dart_buffer_size_def
      dart_find_bit.simps)
  have ov: "dart_overflows 16 dart_full" by (simp add: dart_overflows_def f)
  have h: "(0::int) \<le> 16" "(16::int) < 2 ^ 31" "0 \<le> nxt dart_full" "nxt dart_full < BUFFERCOUNT"
    by (simp_all add: f BUFFERCOUNT_def)
  have a1: "ready (dart_after (take 2 [[], [(0, MIX_WRITE_COMPLETE)]]) dart_full) \<noteq> 0"
    by (simp add: dart_after_def dart_complete_def OS2_Dart_UpdateBuffers_def f)
  have a2: "\<forall>j\<le>length [[] :: (u32 \<times> u32) list]. ready (dart_after (take j [[]]) dart_full) = 0"
  proof (intro allI impI)
    fix j :: nat
    have c: "concat (take j [[] :: (u32 \<times> u32) list]) = []" by (cases j) simp_all
    show "ready (dart_after (take j [[]]) dart_full) = 0"
      unfolding dart_after_def c by (simp add: f)
  qed
  from write_dart_output_rotates [OF ov h, of "[[], [(0, MIX_WRITE_COMPLETE)]]" pcm_sample] a1
  have "write_dart_output [[], [(0, MIX_WRITE_COMPLETE)]] pcm_sample 16 dart_full \<noteq> None"
    by (metis le_refl length_Cons list.size(3) numeral_2_eq_2)
  moreover from write_dart_output_rotates [OF ov h, of "[[]]" pcm_sample] a2
  have "write_dart_output [[]] pcm_sample 16 dart_full = None" by blast
  ultimately show ?thesis using ov h by simp
qed

text \<open>
  C10. A call of \<open>write_dart_output\<close> that is not blocked for ever (the data fits the
  current slot, or some reading of the ready count is nonzero) returns 0 having made
  exactly one copy, of all \<open>output_size\<close> bytes, to one place: the fill offset of the
  current slot when the data fits there, else offset zero of the slot the rotation
  moved to. Memory outside the copied range does not change, so when the payload is at
  most \<open>bsize\<close> no slot lying apart from the target changes. The copy stays within the
  \<open>bsize\<close> bytes of the slot exactly when \<open>output_size \<le> bsize\<close>; a larger payload is
  copied from offset zero and its bytes from \<open>bsize\<close> on are written past the end of
  the slot.
\<close>

theorem write_dart_output_single_copy:
  assumes n: "0 \<le> output_size" and i: "0 \<le> idx s" and b: "idx s + output_size < 2 ^ 31"
    and ret: "dart_overflows output_size s \<longrightarrow>
                (\<exists>j\<le>length sched. ready (dart_after (take j sched) s) \<noteq> 0)"
  shows "\<exists>s' off. write_dart_output sched output_data output_size s = Some (0, s')
      \<and> dart_copies (dart_calls s') = dart_copies (dart_calls s) @ [(nxt s', off, output_size)]
      \<and> off = (if dart_overflows output_size s then 0 else idx s)
      \<and> nxt s' = (if dart_overflows output_size s
                   then (if nxt s + 1 = BUFFERCOUNT then 0 else nxt s + 1) else nxt s)
      \<and> pBuffer s' = pBuffer s \<and> bsize s' = bsize s
      \<and> (\<forall>i. 0 \<le> i \<and> i < output_size \<longrightarrow>
             dart_mem s' (pBuffer s (nxt s') + off + i) = output_data i)
      \<and> (\<forall>a. a < pBuffer s (nxt s') + off \<or> pBuffer s (nxt s') + off + output_size \<le> a \<longrightarrow>
             dart_mem s' a = dart_mem s a)
      \<and> (\<forall>slot i. output_size \<le> uint (bsize s) \<and> 0 \<le> i \<and> i < uint (bsize s)
                   \<and> (pBuffer s slot + uint (bsize s) \<le> pBuffer s (nxt s')
                        \<or> pBuffer s (nxt s') + uint (bsize s) \<le> pBuffer s slot) \<longrightarrow>
             buffers s' slot i = buffers s slot i)
      \<and> (0 \<le> off \<and> off + output_size \<le> uint (bsize s) \<longleftrightarrow> output_size \<le> uint (bsize s))
      \<and> (uint (bsize s) < output_size \<longrightarrow>
             off = 0
             \<and> (\<forall>i. uint (bsize s) \<le> i \<and> i < output_size \<longrightarrow>
                    dart_mem s' (pBuffer s (nxt s') + i) = output_data i))"
proof -
  from n i b have n31: "output_size < 2 ^ 31" by linarith
  from n i have s0: "0 \<le> idx s + output_size" by linarith
  note ov = dart_overflows_iff [OF s0 b]
  have B0: "0 \<le> uint (bsize s)" by simp
  show ?thesis
  proof (cases "dart_overflows output_size s")
    case True
    with ret have "dart_wait sched s \<noteq> None" by (simp add: dart_wait_None)
    then obtain w where w: "dart_wait sched s = Some w" by auto
    define s' where "s' = dart_copy output_data output_size (dart_advance (dart_dec (dart_submit w)))"
    from True w have R: "write_dart_output sched output_data output_size s = Some (0, s')"
      by (simp add: write_dart_output_def s'_def)
    from dart_wait_Some [OF w] obtain k where k: "w = dart_after (take k sched) s"
      by blast
    have f: "nxt w = nxt s" "idx w = idx s" "dart_calls w = dart_calls s" "bsize w = bsize s"
      "dart_mem w = dart_mem s" "pBuffer w = pBuffer s"
      unfolding k by (simp_all add: dart_after_frame)
    note res = dart_rotate_result [OF n n31 s'_def, unfolded f]
    have m: "\<forall>i. 0 \<le> i \<and> i < output_size \<longrightarrow>
             dart_mem s' (pBuffer s (nxt s') + 0 + i) = output_data i"
      by (simp add: res(9) memcpy_inside)
    have o: "\<forall>a. a < pBuffer s (nxt s') + 0 \<or> pBuffer s (nxt s') + 0 + output_size \<le> a \<longrightarrow>
             dart_mem s' a = dart_mem s a"
      by (simp add: res(9) memcpy_outside)
    have sl: "\<forall>slot i. output_size \<le> uint (bsize s) \<and> 0 \<le> i \<and> i < uint (bsize s)
                   \<and> (pBuffer s slot + uint (bsize s) \<le> pBuffer s (nxt s')
                        \<or> pBuffer s (nxt s') + uint (bsize s) \<le> pBuffer s slot) \<longrightarrow>
             buffers s' slot i = buffers s slot i"
      using o by (auto simp: buffers_def res(8))
    have big: "\<forall>i. uint (bsize s) \<le> i \<and> i < output_size \<longrightarrow>
                    dart_mem s' (pBuffer s (nxt s') + i) = output_data i"
    proof (intro allI impI)
      fix i assume "uint (bsize s) \<le> i \<and> i < output_size"
      with uint_ge_0 [of "bsize s"] have "0 \<le> i \<and> i < output_size" by linarith
      with m show "dart_mem s' (pBuffer s (nxt s') + i) = output_data i" by simp
    qed
    show ?thesis
      apply (rule exI [of _ s'])
      apply (rule exI [of _ 0])
      using True R res(1) res(5) res(7) res(8) m o sl big n
      apply (simp add: dart_copies_append)
      done
  next
    case False
    define s' where "s' = dart_copy output_data output_size s"
    from False have R: "write_dart_output sched output_data output_size s = Some (0, s')"
      by (simp add: write_dart_output_def s'_def)
    note res = dart_copy_result [OF n n31 s'_def]
    from False ov have fit: "idx s + output_size \<le> uint (bsize s)" by simp
    have m: "\<forall>i. 0 \<le> i \<and> i < output_size \<longrightarrow>
             dart_mem s' (pBuffer s (nxt s) + idx s + i) = output_data i"
      by (simp add: res(8) memcpy_inside)
    have o: "\<forall>a. a < pBuffer s (nxt s) + idx s \<or> pBuffer s (nxt s) + idx s + output_size \<le> a \<longrightarrow>
             dart_mem s' a = dart_mem s a"
      by (simp add: res(8) memcpy_outside)
    have sl: "\<forall>slot i. output_size \<le> uint (bsize s) \<and> 0 \<le> i \<and> i < uint (bsize s)
                   \<and> (pBuffer s slot + uint (bsize s) \<le> pBuffer s (nxt s)
                        \<or> pBuffer s (nxt s) + uint (bsize s) \<le> pBuffer s slot) \<longrightarrow>
             buffers s' slot i = buffers s slot i"
      using o fit i by (auto simp: buffers_def res(7))
    show ?thesis
      apply (rule exI [of _ s'])
      apply (rule exI [of _ "idx s"])
      using False R res(1) res(2) res(4) res(7) m o sl fit n i
      apply (simp add: dart_copies_append)
      done
  qed
qed

theorem write_dart_output_single_copy_witness:
  "(0::int) \<le> 40000 \<and> 0 \<le> idx dart_opened \<and> idx dart_opened + 40000 < 2 ^ 31
   \<and> dart_overflows 40000 dart_opened
   \<and> ready (dart_after (take 0 []) dart_opened) \<noteq> 0
   \<and> uint (bsize dart_opened) < 40000
   \<and> (\<exists>s'. write_dart_output [] (\<lambda>i. 1) 40000 dart_opened = Some (0, s')
          \<and> dart_copies (dart_calls s') = dart_copies (dart_calls dart_opened) @ [(3, 0, 40000)]
          \<and> dart_mem s' (pBuffer dart_opened 3 + 32768) = 1
          \<and> dart_mem dart_opened (pBuffer dart_opened 3 + 32768) = 0)
   \<and> (0::int) \<le> 16 \<and> 0 \<le> idx dart_full \<and> idx dart_full + 16 < 2 ^ 31
   \<and> dart_overflows 16 dart_full
   \<and> ready (dart_after (take 2 [[], [(0, MIX_WRITE_COMPLETE)]]) dart_full) \<noteq> 0
   \<and> (\<exists>s'. write_dart_output [[], [(0, MIX_WRITE_COMPLETE)]] pcm_sample 16 dart_full = Some (0, s')
          \<and> dart_copies (dart_calls s') = dart_copies (dart_calls dart_full) @ [(3, 0, 16)])"
proof -
  have f: "bsize dart_opened = 32768" "idx dart_opened = 0" "nxt dart_opened = 2"
    "ready dart_opened = 1" "pBuffer dart_opened 3 = 163840" "dart_mem dart_opened 196608 = 0"
    by (simp_all add: dart_opened_def open_dart_output_def dart_env_ok_def Let_def dart_statics_def
      dart_log_def dart_memset_def pmixWrite_def dart_buffer_size_def dart_find_bit.simps
      BUFFERCOUNT_def memset_def)
  have g: "bsize dart_full = 32768" "idx dart_full = 32760" "nxt dart_full = 2"
    "ready dart_full = 0"
    by (simp_all add: dart_full_def f)
  have h1: "(0::int) \<le> 40000" "0 \<le> idx dart_opened" "idx dart_opened + 40000 < 2 ^ 31"
    by (simp_all add: f)
  have o1: "dart_overflows 40000 dart_opened" by (simp add: dart_overflows_def f)
  have a1: "ready (dart_after (take 0 []) dart_opened) \<noteq> 0" by (simp add: f)
  then have r1: "dart_overflows 40000 dart_opened \<longrightarrow>
      (\<exists>j\<le>length ([] :: (u32 \<times> u32) list list). ready (dart_after (take j []) dart_opened) \<noteq> 0)"
    by simp
  have b1: "uint (bsize dart_opened) < 40000" by (simp add: f)
  from write_dart_output_single_copy [OF h1 r1, of "\<lambda>i. 1"] o1 b1
  obtain s' where
    "write_dart_output [] (\<lambda>i. 1) 40000 dart_opened = Some (0, s')"
    "dart_copies (dart_calls s') = dart_copies (dart_calls dart_opened) @ [(nxt s', 0, 40000)]"
    "nxt s' = (if nxt dart_opened + 1 = BUFFERCOUNT then 0 else nxt dart_opened + 1)"
    "\<forall>i. uint (bsize dart_opened) \<le> i \<and> i < 40000 \<longrightarrow>
        dart_mem s' (pBuffer dart_opened (nxt s') + i) = 1"
    by auto
  moreover from this(4) have "uint (bsize dart_opened) \<le> 32768 \<and> (32768::int) < 40000 \<longrightarrow>
        dart_mem s' (pBuffer dart_opened (nxt s') + 32768) = 1"
    by blast
  ultimately have A: "\<exists>s'. write_dart_output [] (\<lambda>i. 1) 40000 dart_opened = Some (0, s')
          \<and> dart_copies (dart_calls s') = dart_copies (dart_calls dart_opened) @ [(3, 0, 40000)]
          \<and> dart_mem s' (pBuffer dart_opened 3 + 32768) = 1
          \<and> dart_mem dart_opened (pBuffer dart_opened 3 + 32768) = 0"
    by (intro exI [of _ s']) (simp add: f BUFFERCOUNT_def)
  have h2: "(0::int) \<le> 16" "0 \<le> idx dart_full" "idx dart_full + 16 < 2 ^ 31"
    by (simp_all add: g)
  have o2: "dart_overflows 16 dart_full" by (simp add: dart_overflows_def g)
  have a2: "ready (dart_after (take 2 [[], [(0, MIX_WRITE_COMPLETE)]]) dart_full) \<noteq> 0"
    by (simp add: dart_after_def dart_complete_def OS2_Dart_UpdateBuffers_def g)
  then have r2: "dart_overflows 16 dart_full \<longrightarrow>
      (\<exists>j\<le>length [[], [(0, MIX_WRITE_COMPLETE)]].
         ready (dart_after (take j [[], [(0, MIX_WRITE_COMPLETE)]]) dart_full) \<noteq> 0)"
    by (intro impI exI [of _ 2]) simp
  from write_dart_output_single_copy [OF h2 r2, of pcm_sample] o2
  obtain s' where
    "write_dart_output [[], [(0, MIX_WRITE_COMPLETE)]] pcm_sample 16 dart_full = Some (0, s')"
    "dart_copies (dart_calls s') = dart_copies (dart_calls dart_full) @ [(nxt s', 0, 16)]"
    "nxt s' = (if nxt dart_full + 1 = BUFFERCOUNT then 0 else nxt dart_full + 1)"
    by auto
  then have B: "\<exists>s'. write_dart_output [[], [(0, MIX_WRITE_COMPLETE)]] pcm_sample 16 dart_full = Some (0, s')
          \<and> dart_copies (dart_calls s') = dart_copies (dart_calls dart_full) @ [(3, 0, 16)]"
    by (intro exI [of _ s']) (simp add: g BUFFERCOUNT_def)
  from h1 o1 a1 b1 A h2 o2 a2 B show ?thesis by blast
qed

section \<open>OS-Mixer backend: ready count and submitted buffers\<close>

lemma dart_open_state:
  assumes "open_dart_output env rate dart_statics = (0, s)"
  shows "ready s = 1" "submitted s = 2" "nxt s = 2" "idx s = 0"
  using assms
  by (auto simp: open_dart_output_def Let_def dart_statics_def dart_log_def dart_memset_def
      pmixWrite_def split: if_splits option.splits)

lemma dart_complete_ready:
  "ready (dart_complete e s) = (if dart_counted e then ready s + 1 else ready s)"
  "submitted (dart_complete e s) = submitted s - 1"
  by (simp_all add: dart_complete_def OS2_Dart_UpdateBuffers_def dart_counted_def)










section \<open>POSIX backend: write\<close>

lemma alsa_delivered_append:
  "alsa_delivered data (xs @ ys) = alsa_delivered data xs @ alsa_delivered data ys"
  by (induction data xs rule: alsa_delivered.induct) auto

lemma alsa_os_ok_append: "alsa_os_ok (xs @ ys) \<longleftrightarrow> alsa_os_ok xs \<and> alsa_os_ok ys"
  by (induction xs rule: alsa_os_ok.induct) auto

lemma upto_join: "(i::int) \<le> j \<Longrightarrow> j \<le> k + 1 \<Longrightarrow> [i..j - 1] @ [j..k] = [i..k]"
proof -
  assume a: "i \<le> j" "j \<le> k + 1"
  show ?thesis
  proof (cases "j \<le> k")
    case True
    with a show ?thesis by (simp add: upto_split1 [of i j k])
  next
    case False
    with a have "j = k + 1" by simp
    then show ?thesis by simp
  qed
qed

lemma frames_le_bytes:
  assumes "0 < n" "0 \<le> e" "e \<le> snd_pcm_bytes_to_frames n"
  shows "snd_pcm_frames_to_bytes e \<le> n"
proof -
  have "snd_pcm_bytes_to_frames n = n div 4"
    using assms(1) by (simp add: snd_pcm_bytes_to_frames_def c_div_def)
  with assms show ?thesis by (simp add: snd_pcm_frames_to_bytes_def)
qed

lemma write_alsa_loop_xrun:
  assumes "output_size > 0" "writei_ret r < 0" "state_xrun r"
  shows "write_alsa_loop (r # rs) off output_size s =
         write_alsa_loop rs off output_size
           (s\<lparr>alsa_first_time := True,
              alsa_calls := alsa_calls s @
                [SndPcmWritei off (snd_pcm_bytes_to_frames output_size) (writei_ret r),
                 SndPcmPrepare (prepare_ret r)] @
                (if prepare_ret r < 0 then [AlsaStderr] else [])\<rparr>)"
  using assms by (cases s) (simp add: Let_def alsa_log_def)

lemma write_alsa_loop_error:
  assumes "output_size > 0" "writei_ret r < 0" "\<not> state_xrun r"
  shows "write_alsa_loop (r # rs) off output_size s =
         (Some (writei_ret r),
          alsa_log (SndPcmWritei off (snd_pcm_bytes_to_frames output_size) (writei_ret r)) s)"
  using assms by (simp add: Let_def)

lemma write_alsa_loop_accept:
  assumes "output_size > 0" "0 \<le> writei_ret r"
  shows "write_alsa_loop (r # rs) off output_size s =
         write_alsa_loop rs (off + snd_pcm_frames_to_bytes (writei_ret r))
           (output_size - snd_pcm_frames_to_bytes (writei_ret r))
           (s\<lparr>alsa_first_time := False,
              alsa_calls := alsa_calls s @
                [SndPcmWritei off (snd_pcm_bytes_to_frames output_size) (writei_ret r)] @
                (if alsa_first_time s then [SndPcmStart] else [])\<rparr>)"
  using assms by (cases s) (simp add: Let_def alsa_log_def)

lemma write_alsa_loop_done: "output_size \<le> 0 \<Longrightarrow> write_alsa_loop rs off output_size s = (Some 0, s)"
  by (cases rs) simp_all

lemma write_alsa_loop_delivers:
  "write_alsa_loop rs off n s = (Some 0, s') \<Longrightarrow>
   \<exists>new. alsa_calls s' = alsa_calls s @ new
      \<and> (alsa_os_ok new \<longrightarrow> alsa_delivered data new = map data [off..off + n - 1])"
proof (induction rs arbitrary: off n s)
  case Nil
  then show ?case by (auto split: if_splits)
next
  case (Cons r rs)
  show ?case
  proof (cases "n > 0")
    case False
    with Cons.prems show ?thesis by simp
  next
    case pos: True
    let ?w = "SndPcmWritei off (snd_pcm_bytes_to_frames n) (writei_ret r)"
    show ?thesis
    proof (cases "writei_ret r < 0")
      case neg: True
      show ?thesis
      proof (cases "state_xrun r")
        case True
        let ?pre = "[?w, SndPcmPrepare (prepare_ret r)] @ (if prepare_ret r < 0 then [AlsaStderr] else [])"
        from Cons.prems have "write_alsa_loop rs off n
           (s\<lparr>alsa_first_time := True, alsa_calls := alsa_calls s @ ?pre\<rparr>) = (Some 0, s')"
          by (simp only: write_alsa_loop_xrun [OF pos neg True])
        from Cons.IH [OF this] obtain new where new:
          "alsa_calls s' = (alsa_calls s @ ?pre) @ new"
          "alsa_os_ok new \<longrightarrow> alsa_delivered data new = map data [off..off + n - 1]"
          by auto
        show ?thesis
          apply (rule exI [of _ "?pre @ new"])
          using new neg by (auto simp: alsa_delivered_append alsa_os_ok_append)
      next
        case False
        from Cons.prems have "Some (writei_ret r) = Some 0"
          by (simp only: write_alsa_loop_error [OF pos neg False] prod.inject)
        with neg show ?thesis by simp
      qed
    next
      case False
      then have acc: "0 \<le> writei_ret r" by simp
      let ?b = "snd_pcm_frames_to_bytes (writei_ret r)"
      let ?pre = "[?w] @ (if alsa_first_time s then [SndPcmStart] else [])"
      from Cons.prems have "write_alsa_loop rs (off + ?b) (n - ?b)
           (s\<lparr>alsa_first_time := False, alsa_calls := alsa_calls s @ ?pre\<rparr>) = (Some 0, s')"
        by (simp only: write_alsa_loop_accept [OF pos acc])
      from Cons.IH [OF this] obtain new where new:
        "alsa_calls s' = (alsa_calls s @ ?pre) @ new"
        "alsa_os_ok new \<longrightarrow> alsa_delivered data new = map data [off + ?b..off + ?b + (n - ?b) - 1]"
        by auto
      have join: "writei_ret r \<le> snd_pcm_bytes_to_frames n \<Longrightarrow>
          map data [off..off + 4 * writei_ret r - 1] @ map data [off + ?b..off + ?b + (n - ?b) - 1]
            = map data [off..off + n - 1]"
      proof -
        assume "writei_ret r \<le> snd_pcm_bytes_to_frames n"
        from frames_le_bytes [OF pos acc this] have le: "?b \<le> n" .
        have b: "?b = 4 * writei_ret r" by (simp add: snd_pcm_frames_to_bytes_def)
        have "[off..(off + ?b) - 1] @ [off + ?b..off + n - 1] = [off..off + n - 1]"
          using le acc b by (intro upto_join) simp_all
        then show ?thesis
          unfolding b by (simp flip: map_append)
      qed
      show ?thesis
        apply (rule exI [of _ "?pre @ new"])
        using new join by (auto simp: alsa_delivered_append alsa_os_ok_append)
    qed
  qed
qed

lemma write_alsa_loop_result:
  "write_alsa_loop rs off n s = (Some e, s') \<Longrightarrow>
   e = 0 \<or> (e < 0 \<and> (\<exists>r\<in>set rs. writei_ret r = e \<and> \<not> state_xrun r))"
proof (induction rs arbitrary: off n s)
  case Nil
  then show ?case by (auto split: if_splits)
next
  case (Cons r rs)
  show ?case
  proof (cases "n > 0")
    case False
    with Cons.prems show ?thesis by simp
  next
    case pos: True
    show ?thesis
    proof (cases "writei_ret r < 0")
      case neg: True
      show ?thesis
      proof (cases "state_xrun r")
        case True
        from Cons.prems Cons.IH show ?thesis
          by (simp only: write_alsa_loop_xrun [OF pos neg True]) fastforce
      next
        case False
        from Cons.prems have "Some (writei_ret r) = Some e"
          by (simp only: write_alsa_loop_error [OF pos neg False] prod.inject)
        with neg False show ?thesis by auto
      qed
    next
      case False
      then have acc: "0 \<le> writei_ret r" by simp
      from Cons.prems Cons.IH show ?thesis
        by (simp only: write_alsa_loop_accept [OF pos acc]) fastforce
    qed
  qed
qed

text \<open>
  C2. In any pass of the loop of \<open>write_alsa_output\<close>: when \<open>snd_pcm_writei\<close> fails
  and the stream state is XRUN, \<open>snd_pcm_prepare\<close> is called and the loop goes on with
  the same position and the same size, so the same data is submitted again; when it
  fails in any other state, that negative value is returned. A call returns only 0 or
  such a negative value. And when it returns 0, the library never having taken more
  frames than it was passed, the bytes the library took are, in order, exactly the
  \<open>output_size\<close> bytes of the input: none dropped, none twice.
\<close>

theorem write_alsa_output_retries_and_delivers:
  "(output_size > 0 \<and> writei_ret r < 0 \<and> state_xrun r \<longrightarrow>
      write_alsa_loop (r # rs) off output_size s =
        write_alsa_loop rs off output_size
          (s\<lparr>alsa_first_time := True,
             alsa_calls := alsa_calls s @
               [SndPcmWritei off (snd_pcm_bytes_to_frames output_size) (writei_ret r),
                SndPcmPrepare (prepare_ret r)] @
               (if prepare_ret r < 0 then [AlsaStderr] else [])\<rparr>))
   \<and> (output_size > 0 \<and> writei_ret r < 0 \<and> \<not> state_xrun r \<longrightarrow>
        fst (write_alsa_loop (r # rs) off output_size s) = Some (writei_ret r))
   \<and> (\<forall>e s'. write_alsa_output rs output_size s = (Some e, s') \<longrightarrow>
          e = 0 \<or> (e < 0 \<and> (\<exists>r\<in>set rs. writei_ret r = e \<and> \<not> state_xrun r)))
   \<and> (\<forall>s'. write_alsa_output rs output_size s = (Some 0, s') \<longrightarrow>
          (\<exists>new. alsa_calls s' = alsa_calls s @ new
             \<and> (alsa_os_ok new \<longrightarrow>
                  alsa_delivered data new = map data [0..output_size - 1])))"
proof (intro conjI allI impI)
  assume "output_size > 0 \<and> writei_ret r < 0 \<and> state_xrun r"
  then show "write_alsa_loop (r # rs) off output_size s =
        write_alsa_loop rs off output_size
          (s\<lparr>alsa_first_time := True,
             alsa_calls := alsa_calls s @
               [SndPcmWritei off (snd_pcm_bytes_to_frames output_size) (writei_ret r),
                SndPcmPrepare (prepare_ret r)] @
               (if prepare_ret r < 0 then [AlsaStderr] else [])\<rparr>)"
    by (intro write_alsa_loop_xrun) simp_all
next
  assume "output_size > 0 \<and> writei_ret r < 0 \<and> \<not> state_xrun r"
  then have "write_alsa_loop (r # rs) off output_size s =
         (Some (writei_ret r),
          alsa_log (SndPcmWritei off (snd_pcm_bytes_to_frames output_size) (writei_ret r)) s)"
    by (intro write_alsa_loop_error) simp_all
  then show "fst (write_alsa_loop (r # rs) off output_size s) = Some (writei_ret r)"
    by (simp only: fst_conv)
next
  fix e s'
  assume "write_alsa_output rs output_size s = (Some e, s')"
  then show "e = 0 \<or> (e < 0 \<and> (\<exists>r\<in>set rs. writei_ret r = e \<and> \<not> state_xrun r))"
    unfolding write_alsa_output_def by (rule write_alsa_loop_result)
next
  fix s'
  assume "write_alsa_output rs output_size s = (Some 0, s')"
  then have "\<exists>new. alsa_calls s' = alsa_calls s @ new
             \<and> (alsa_os_ok new \<longrightarrow>
                  alsa_delivered data new = map data [0..0 + output_size - 1])"
    unfolding write_alsa_output_def by (rule write_alsa_loop_delivers)
  then show "\<exists>new. alsa_calls s' = alsa_calls s @ new
             \<and> (alsa_os_ok new \<longrightarrow>
                  alsa_delivered data new = map data [0..output_size - 1])"
    by simp
qed

theorem write_alsa_output_retries_and_delivers_witness:
  "write_alsa_output alsa_replies 8 alsa_opened =
     (Some 0, \<lparr>pcm = Some 1, alsa_first_time = False,
        alsa_calls = [SndPcmWritei 0 2 1, SndPcmStart, SndPcmWritei 4 1 (-32), SndPcmPrepare 0,
                      SndPcmWritei 4 1 1, SndPcmStart]\<rparr>)
   \<and> alsa_os_ok [SndPcmWritei 0 2 1, SndPcmStart, SndPcmWritei 4 1 (-32), SndPcmPrepare 0,
                      SndPcmWritei 4 1 1, SndPcmStart]
   \<and> alsa_delivered pcm_sample
        [SndPcmWritei 0 2 1, SndPcmStart, SndPcmWritei 4 1 (-32), SndPcmPrepare 0,
         SndPcmWritei 4 1 1, SndPcmStart] = map pcm_sample [0..8 - 1]"
proof -
  let ?tr = "[SndPcmWritei 0 2 1, SndPcmStart, SndPcmWritei 4 1 (-32), SndPcmPrepare 0,
                      SndPcmWritei 4 1 1, SndPcmStart]"
  have run: "write_alsa_output alsa_replies 8 alsa_opened =
     (Some 0, \<lparr>pcm = Some 1, alsa_first_time = False, alsa_calls = ?tr\<rparr>)"
    by (simp add: write_alsa_output_def alsa_replies_def alsa_opened_def Let_def alsa_log_def
      snd_pcm_bytes_to_frames_def snd_pcm_frames_to_bytes_def c_div_def)
  have ok: "alsa_os_ok ?tr" by simp
  from write_alsa_output_retries_and_delivers
    [of 8 "hd alsa_replies" alsa_replies 0 alsa_opened pcm_sample] run
  obtain new where "alsa_calls \<lparr>pcm = Some 1, alsa_first_time = False, alsa_calls = ?tr\<rparr>
        = alsa_calls alsa_opened @ new"
    and "alsa_os_ok new \<longrightarrow> alsa_delivered pcm_sample new = map pcm_sample [0..8 - 1]"
    by blast
  then have "alsa_os_ok ?tr \<longrightarrow> alsa_delivered pcm_sample ?tr = map pcm_sample [0..8 - 1]"
    by (simp add: alsa_opened_def)
  with run ok show ?thesis by blast
qed

section \<open>POSIX and OS-Mixer backends: close\<close>

lemma open_alsa_output_failed:
  assumes "open_alsa_output env name rate a = (r, rate', a')" "r \<noteq> 0" "pcm a = None"
  shows "pcm a' = None"
  using assms
  by (auto simp: open_alsa_output_def alsa_fail_def close_alsa_output_def alsa_log_def Let_def
      split: option.splits if_splits)

text \<open>
  What \<open>close\<close> does in general. \<open>close_alsa_output\<close> does nothing when the handle is
  null; otherwise it closes the stream and sets the handle to null, so a second call
  does nothing; it does nothing on the initial statics, nor after an \<open>open\<close> that failed
  on them. \<open>close_dart_output\<close> frees the buffers if the marker
  \<open>MixBuffers[0].pBuffer\<close> is set and closes the device if \<open>DeviceID\<close> is set, and leaves
  the marker null and the id zero: a second call only prints its message, as does a
  call on the initial statics.
\<close>

lemma close_output_idempotent:
  "(pcm a = None \<longrightarrow> close_alsa_output a = a)
   \<and> (\<forall>h. pcm a = Some h \<longrightarrow>
         alsa_calls (close_alsa_output a) = alsa_calls a @ [AlsaPrintf, SndPcmClose h])
   \<and> pcm (close_alsa_output a) = None
   \<and> close_alsa_output (close_alsa_output a) = close_alsa_output a
   \<and> close_alsa_output alsa_statics = alsa_statics
   \<and> (\<forall>env name rate r rate' a'.
         open_alsa_output env name rate alsa_statics = (r, rate', a') \<and> r \<noteq> 0 \<longrightarrow>
         close_alsa_output a' = a')
   \<and> pBuffer0 (close_dart_output d) = False
   \<and> DeviceID (close_dart_output d) = 0
   \<and> dart_releases (dart_calls (close_dart_output d)) =
       dart_releases (dart_calls d) @ (if pBuffer0 d then [MciDeallocate] else [])
         @ (if DeviceID d \<noteq> 0 then [MciClose (DeviceID d)] else [])
   \<and> dart_calls (close_dart_output (close_dart_output d)) =
       dart_calls (close_dart_output d) @ [DartPrintf]
   \<and> dart_releases (dart_calls (close_dart_output dart_statics)) = []"
proof -
  have rel: "dart_releases (xs @ ys) = dart_releases xs @ dart_releases ys" for xs ys
    by (induction xs rule: dart_releases.induct) auto
  have A: "pcm a = None \<longrightarrow> close_alsa_output a = a"
    by (simp add: close_alsa_output_def)
  have B: "\<forall>h. pcm a = Some h \<longrightarrow>
         alsa_calls (close_alsa_output a) = alsa_calls a @ [AlsaPrintf, SndPcmClose h]"
    by (simp add: close_alsa_output_def alsa_log_def)
  have C: "pcm (close_alsa_output a) = None"
    by (simp add: close_alsa_output_def split: option.splits)
  have D: "close_alsa_output (close_alsa_output a) = close_alsa_output a"
    using C by (simp add: close_alsa_output_def [of "close_alsa_output a"])
  have E: "close_alsa_output alsa_statics = alsa_statics"
    by (simp add: close_alsa_output_def alsa_statics_def)
  have F: "\<forall>env name rate r rate' a'.
         open_alsa_output env name rate alsa_statics = (r, rate', a') \<and> r \<noteq> 0 \<longrightarrow>
         close_alsa_output a' = a'"
  proof (intro allI impI)
    fix env name rate r rate' a'
    assume "open_alsa_output env name rate alsa_statics = (r, rate', a') \<and> r \<noteq> 0"
    then have "pcm a' = None"
      by (intro open_alsa_output_failed [of env name rate alsa_statics r rate' a'])
        (simp_all add: alsa_statics_def)
    then show "close_alsa_output a' = a'" by (simp add: close_alsa_output_def)
  qed
  have G: "pBuffer0 (close_dart_output d) = False" "DeviceID (close_dart_output d) = 0"
    by (simp_all add: close_dart_output_def dart_log_def Let_def pBuffer0_def)
  have H: "dart_releases (dart_calls (close_dart_output d)) =
       dart_releases (dart_calls d) @ (if pBuffer0 d then [MciDeallocate] else [])
         @ (if DeviceID d \<noteq> 0 then [MciClose (DeviceID d)] else [])"
    by (simp add: close_dart_output_def dart_log_def Let_def rel pBuffer0_def)
  have I: "dart_calls (close_dart_output (close_dart_output d)) =
       dart_calls (close_dart_output d) @ [DartPrintf]"
    using G by (simp add: close_dart_output_def [of "close_dart_output d"] dart_log_def Let_def
        pBuffer0_def)
  have J: "dart_releases (dart_calls (close_dart_output dart_statics)) = []"
    by (simp add: close_dart_output_def dart_log_def Let_def dart_statics_def pBuffer0_def)
  from A B C D E F G H I J show ?thesis by blast
qed


lemma close_output_idempotent_sample:
  "pcm alsa_opened = Some 1
   \<and> alsa_calls (close_alsa_output alsa_opened) = alsa_calls alsa_opened @ [AlsaPrintf, SndPcmClose 1]
   \<and> pcm alsa_statics = None \<and> close_alsa_output alsa_statics = alsa_statics
   \<and> dart_releases (dart_calls (close_dart_output dart_opened)) = [MciDeallocate, MciClose 1]
   \<and> dart_releases (dart_calls (close_dart_output (close_dart_output dart_opened)))
       = [MciDeallocate, MciClose 1]"
proof -
  have p: "pcm alsa_opened = Some 1" "pcm alsa_statics = None"
    by (simp_all add: alsa_opened_def alsa_statics_def)
  have d: "pBuffer0 dart_opened" "DeviceID dart_opened = 1" "dart_releases (dart_calls dart_opened) = []"
    by (simp_all add: dart_opened_def open_dart_output_def dart_env_ok_def Let_def dart_statics_def
      dart_log_def dart_memset_def pmixWrite_def pBuffer0_def BUFFERCOUNT_def)
  have rel: "dart_releases (xs @ [DartPrintf]) = dart_releases xs" for xs
    by (induction xs rule: dart_releases.induct) auto
  note A = close_output_idempotent [of alsa_opened dart_opened]
  note B = close_output_idempotent [of alsa_statics dart_opened]
  from A p have 1: "alsa_calls (close_alsa_output alsa_opened)
      = alsa_calls alsa_opened @ [AlsaPrintf, SndPcmClose 1]" by blast
  from B p have 2: "close_alsa_output alsa_statics = alsa_statics" by blast
  from A d have 3: "dart_releases (dart_calls (close_dart_output dart_opened)) = [MciDeallocate, MciClose 1]"
    by simp
  from A have "dart_calls (close_dart_output (close_dart_output dart_opened)) =
       dart_calls (close_dart_output dart_opened) @ [DartPrintf]" by blast
  with 3 have 4: "dart_releases (dart_calls (close_dart_output (close_dart_output dart_opened)))
       = [MciDeallocate, MciClose 1]" by (simp add: rel)
  from p 1 2 3 4 show ?thesis by blast
qed


text \<open>
  When \<open>open_dart_output\<close> fails at the mixer setup or at the allocation, it closes the
  device itself but leaves \<open>DeviceID\<close> set.
\<close>

lemma open_dart_output_failed_late:
  assumes "mutex_ok env" "amp_open env = Some dev" "\<not> mixsetup_ok env \<or> \<not> alloc_ok env"
  shows "fst (open_dart_output env rate s) = -1"
    and "DeviceID (snd (open_dart_output env rate s)) = dev"
    and "\<not> pBuffer0 (snd (open_dart_output env rate s))"
    and "dart_calls (snd (open_dart_output env rate s)) =
          dart_calls s @ [DosCreateMutexSem, MciOpen, MciMixSetup rate] @
            (if mixsetup_ok env then [MciAllocate (dart_buffer_size rate)] else []) @ [MciClose dev]"
  using assms
  by (auto simp: open_dart_output_def dart_log_def Let_def pBuffer0_def)

text \<open>
  C8. The ALSA close and the second call of either close are as C8 says
  (\<open>close_output_idempotent\<close>). The DART close is not safe on a handle that was never
  successfully opened: \<open>open_dart_output\<close> on the initial statics, with \<open>MCI_OPEN\<close>
  giving device 1 and \<open>MCI_MIXSETUP\<close> failing (or the allocation failing), returns -1
  having sent \<open>MCI_CLOSE\<close> for device 1 and leaves \<open>DeviceID = 1\<close>; \<open>close_dart_output\<close>
  then sends \<open>MCI_CLOSE\<close> for device 1 a second time. \<open>close_dart_output\<close> itself
  zeroes \<open>DeviceID\<close> after its \<open>MCI_CLOSE\<close>; the failing paths of \<open>open\<close> do not.
\<close>

theorem close_dart_output_after_failed_open:
  "fst (open_dart_output dart_env_nosetup 44100 dart_statics) = -1
   \<and> dart_releases (dart_calls (snd (open_dart_output dart_env_nosetup 44100 dart_statics)))
       = [MciClose 1]
   \<and> DeviceID (snd (open_dart_output dart_env_nosetup 44100 dart_statics)) = 1
   \<and> dart_releases (dart_calls (close_dart_output
         (snd (open_dart_output dart_env_nosetup 44100 dart_statics))))
       = [MciClose 1, MciClose 1]
   \<and> fst (open_dart_output dart_env_noalloc 44100 dart_statics) = -1
   \<and> dart_releases (dart_calls (snd (open_dart_output dart_env_noalloc 44100 dart_statics)))
       = [MciClose 1]
   \<and> dart_releases (dart_calls (close_dart_output
         (snd (open_dart_output dart_env_noalloc 44100 dart_statics))))
       = [MciClose 1, MciClose 1]"
  by (simp add: open_dart_output_def close_dart_output_def dart_env_nosetup_def
      dart_env_noalloc_def dart_env_ok_def dart_statics_def dart_log_def Let_def pBuffer0_def)

section \<open>OS-Mixer backend: a whole call in steps\<close>

text \<open>
  \<open>write_dart_output\<close> as one function and the stepwise writer describe the same
  calls: whatever a call returns under a schedule the mixer can produce is reached by
  steps of the writer interleaved with those completions.
\<close>

lemma dart_reach_completions:
  assumes "dart_reach (pc, d, n, s, lost)" "length evs \<le> submitted s"
  shows "\<exists>lost'. dart_reach (pc, d, n, fold dart_complete evs s, lost')"
  using assms
proof (induction evs arbitrary: s lost)
  case Nil
  then show ?case by auto
next
  case (Cons e evs)
  from Cons.prems have pos: "submitted s > 0" by auto
  from dart_reach_complete [OF Cons.prems(1) pos, of e]
  obtain l where r: "dart_reach (pc, d, n, dart_complete e s, l)" by blast
  have "submitted (dart_complete e s) = submitted s - 1"
    by (simp add: dart_complete_ready)
  with Cons.prems have "length evs \<le> submitted (dart_complete e s)" by simp
  from Cons.IH [OF r this] show ?case by simp
qed

lemma dart_wait_reach:
  assumes "dart_reach (Poll, d, n, s, lost)" "dart_feasible sched s" "dart_wait sched s = Some w"
  shows "\<exists>lost'. dart_reach (Submit, d, n, w, lost')"
  using assms
proof (induction sched arbitrary: s lost)
  case Nil
  then have "ready s \<noteq> 0" "w = s" by (auto split: if_splits)
  then have "dart_reach (Submit, d, n, w, lost)"
    by (intro dart_reach_step [OF Nil.prems(1)]) simp_all
  then show ?case by blast
next
  case (Cons evs sched)
  show ?case
  proof (cases "ready s \<noteq> 0")
    case True
    with Cons.prems have "w = s" by simp
    with True have "dart_reach (Submit, d, n, w, lost)"
      by (intro dart_reach_step [OF Cons.prems(1)]) simp_all
    then show ?thesis by blast
  next
    case False
    then have z: "ready s = 0" by simp
    have sl: "dart_reach (Sleep, d, n, s, lost)"
      using z by (intro dart_reach_step [OF Cons.prems(1)]) simp_all
    from Cons.prems(2) z have le: "length evs \<le> submitted s"
      and fe: "dart_feasible sched (fold dart_complete evs s)" by simp_all
    from dart_reach_completions [OF sl le]
    obtain l where "dart_reach (Sleep, d, n, fold dart_complete evs s, l)" by blast
    then have p: "dart_reach (Poll, d, n, fold dart_complete evs s, l)"
      by (rule dart_reach_step) simp_all
    from Cons.prems(3) z have "dart_wait sched (fold dart_complete evs s) = Some w" by simp
    from Cons.IH [OF p fe this] show ?thesis .
  qed
qed

lemma write_dart_output_reach:
  assumes "dart_reach (Check, d, n, s, lost)" "dart_feasible sched s"
    and "write_dart_output sched d n s = Some (r, s')"
  shows "\<exists>lost'. dart_reach (Idle, d, n, s', lost')"
proof (cases "dart_overflows n s")
  case False
  with assms(3) have s': "s' = dart_copy d n s" by (simp add: write_dart_output_def)
  have "dart_reach (Copy, d, n, s, lost)"
    using False by (intro dart_reach_step [OF assms(1)]) simp_all
  then have "dart_reach (Idle, d, n, s', lost)" unfolding s' by (rule dart_reach_step) simp_all
  then show ?thesis by blast
next
  case True
  with assms(3) obtain w where w: "dart_wait sched s = Some w"
    and s': "s' = dart_copy d n (dart_advance (dart_dec (dart_submit w)))"
    by (auto simp: write_dart_output_def split: option.splits)
  have "dart_reach (Poll, d, n, s, lost)"
    using True by (intro dart_reach_step [OF assms(1)]) simp_all
  from dart_wait_reach [OF this assms(2) w]
  obtain l where "dart_reach (Submit, d, n, w, l)" by blast
  then have "dart_reach (Dec, d, n, dart_submit w, l)" by (rule dart_reach_step) simp_all
  then have "dart_reach (Store (ready (dart_submit w)), d, n, dart_submit w, l)"
    by (rule dart_reach_step) simp_all
  then have "dart_reach (Advance, d, n, dart_dec (dart_submit w), l)"
    by (rule dart_reach_step) (simp_all add: dart_dec_def)
  then have "dart_reach (Copy, d, n, dart_advance (dart_dec (dart_submit w)), l)"
    by (rule dart_reach_step) simp_all
  then have "dart_reach (Idle, d, n, s', l)" unfolding s' by (rule dart_reach_step) simp_all
  then show ?thesis by blast
qed

text \<open>The buffer index stays inside the array of four buffers.\<close>

lemma dart_reach_nxt:
  assumes "dart_reach c"
  shows "0 \<le> nxt (fst (snd (snd (snd c)))) \<and> nxt (fst (snd (snd (snd c)))) < BUFFERCOUNT"
  using assms
proof (induction rule: dart_reach.induct)
  case (dart_reach_open env rate s d n)
  from dart_open_state [OF this] show ?case by (simp add: BUFFERCOUNT_def)
next
  case (dart_reach_call d n s lost d' n')
  then show ?case by simp
next
  case (dart_reach_step pc d n s lost pc' s')
  then show ?case
    by (cases pc)
      (auto simp: dart_submit_def dart_advance_def dart_copy_def pmixWrite_def
        dart_log_def Let_def BUFFERCOUNT_def split: if_splits)
next
  case (dart_reach_complete pc d n s lost e)
  then show ?case by (simp add: dart_complete_frame)
qed

end
